theory Spec2Isabelle
  imports Complex_Main "HOL-Library.Multiset" "HOL-Library.AList"
begin

section \<open>The graph collaborator\<close>

text \<open>
  \<^verbatim>\<open>graph_rewiring.hh\<close> works on a Boost adjacency list through the free functions
  \<^verbatim>\<open>source\<close>, \<^verbatim>\<open>target\<close>, \<^verbatim>\<open>is_adjacent\<close>, \<^verbatim>\<open>add_edge\<close>, \<^verbatim>\<open>remove_edge\<close>,
  \<^verbatim>\<open>in_degreeS\<close> and \<^verbatim>\<open>out_degree\<close>. Their headers (\<^verbatim>\<open>graph.hh\<close>, \<^verbatim>\<open>graph_util.hh\<close>,
  \<^verbatim>\<open>graph_filtering.hh\<close>) are not among the sources, so the graph is modelled here from
  the contracts section 6 of the specification lists.

  An edge descriptor carries its two endpoints and the identity of the stored edge, so
  \<^verbatim>\<open>source\<close> and \<^verbatim>\<open>target\<close> read the descriptor. A graph is the list of its live edge
  descriptors, the identity the next \<^verbatim>\<open>add_edge\<close> hands out, the number of vertices and
  whether it is directed (in the source a compile-time property of the graph type, read
  by \<^verbatim>\<open>is_directed::apply<Graph>\<close>).
\<close>

type_synonym vertex_t = nat

datatype edge_t = Edge (e_src: vertex_t) (e_tgt: vertex_t) (e_idx: nat)

record graph =
  directed :: bool
  num_vertices :: nat
  edge_list :: "edge_t list"
  next_edge :: nat

text \<open>Modelled from the spec: \<^verbatim>\<open>source(e, g)\<close> and \<^verbatim>\<open>target(e, g)\<close> of the graph library.\<close>

definition source :: "edge_t \<Rightarrow> graph \<Rightarrow> vertex_t" where
  "source e g = e_src e"

definition target :: "edge_t \<Rightarrow> graph \<Rightarrow> vertex_t" where
  "target e g = e_tgt e"

text \<open>
  Modelled from the spec: \<^verbatim>\<open>is_adjacent(u, v, g)\<close> of the graph library: some out-edge
  of \<open>u\<close> ends in \<open>v\<close>; in an undirected graph the out-edges of \<open>u\<close> are all edges
  incident to \<open>u\<close>.
\<close>

definition is_adjacent :: "vertex_t \<Rightarrow> vertex_t \<Rightarrow> graph \<Rightarrow> bool" where
  "is_adjacent u v g =
     (\<exists>e \<in> set (edge_list g).
        (e_src e = u \<and> e_tgt e = v) \<or> (\<not> directed g \<and> e_src e = v \<and> e_tgt e = u))"

text \<open>Modelled from the spec: \<^verbatim>\<open>remove_edge(e, g)\<close> of the graph library.\<close>

definition remove_edge :: "edge_t \<Rightarrow> graph \<Rightarrow> graph" where
  "remove_edge e g = g\<lparr>edge_list := remove1 e (edge_list g)\<rparr>"

text \<open>
  Modelled from the spec: \<^verbatim>\<open>add_edge(s, t, g).first\<close> of the graph library: the new
  edge's descriptor, and the graph with the edge.
\<close>

definition add_edge :: "vertex_t \<Rightarrow> vertex_t \<Rightarrow> graph \<Rightarrow> edge_t \<times> graph" where
  "add_edge s t g =
     (let e = Edge s t (next_edge g)
      in (e, g\<lparr>edge_list := edge_list g @ [e], next_edge := Suc (next_edge g)\<rparr>))"

text \<open>
  Modelled from the spec: \<^verbatim>\<open>out_degree(v, g)\<close> and \<^verbatim>\<open>in_degree(v, g)\<close> of the graph
  library. In an undirected graph both count the edge ends at \<open>v\<close> (a self-loop twice).
  \<^verbatim>\<open>in_degreeS\<close> is the library's functor that reads the in-degree of a directed graph
  and is 0 on an undirected one.
\<close>

definition out_degree :: "vertex_t \<Rightarrow> graph \<Rightarrow> nat" where
  "out_degree v g =
     (if directed g then length (filter (\<lambda>e. e_src e = v) (edge_list g))
      else length (filter (\<lambda>e. e_src e = v) (edge_list g))
         + length (filter (\<lambda>e. e_tgt e = v) (edge_list g)))"

definition in_degree :: "vertex_t \<Rightarrow> graph \<Rightarrow> nat" where
  "in_degree v g =
     (if directed g then length (filter (\<lambda>e. e_tgt e = v) (edge_list g))
      else length (filter (\<lambda>e. e_src e = v) (edge_list g))
         + length (filter (\<lambda>e. e_tgt e = v) (edge_list g)))"

definition in_degreeS :: "vertex_t \<Rightarrow> graph \<Rightarrow> nat" where
  "in_degreeS v g = (if directed g then in_degree v g else 0)"

text \<open>
  The graph's own invariant: live descriptors are pairwise different and older than the
  next identity. The edge table of a rewiring call lists every live descriptor once.
\<close>

definition graph_ok :: "graph \<Rightarrow> bool" where
  "graph_ok g = (distinct (edge_list g) \<and> list_all (\<lambda>e. e_idx e < next_edge g) (edge_list g))"

definition table_ok :: "graph \<Rightarrow> edge_t list \<Rightarrow> bool" where
  "table_ok g edges = (graph_ok g \<and> mset edges = mset (edge_list g))"


section \<open>EdgeRef accessors and the swap primitive\<close>

text \<open>
  An EdgeRef is the pair \<^verbatim>\<open>pair<size_t, bool>\<close> of a slot of the edge table and the
  flag that reads the slot's edge with its endpoints exchanged. The two overloads of
  \<^verbatim>\<open>source\<close> and \<^verbatim>\<open>target\<close> on an EdgeRef are \<open>source_ep\<close> and \<open>target_ep\<close>.
  Reading a slot past the end of the table is undefined in the source; every function
  that indexes the table returns \<open>None\<close> there.
\<close>

type_synonym edge_ref = "nat \<times> bool"

definition source_ep :: "edge_ref \<Rightarrow> edge_t list \<Rightarrow> graph \<Rightarrow> vertex_t" where
  "source_ep e edges g =
     (if snd e then target (edges ! fst e) g else source (edges ! fst e) g)"

definition target_ep :: "edge_ref \<Rightarrow> edge_t list \<Rightarrow> graph \<Rightarrow> vertex_t" where
  "target_ep e edges g =
     (if snd e then source (edges ! fst e) g else target (edges ! fst e) g)"

definition parallel_check_target :: "nat \<Rightarrow> edge_ref \<Rightarrow> edge_t list \<Rightarrow> graph \<Rightarrow> bool option" where
  "parallel_check_target e te edges g =
     (if e < length edges \<and> fst te < length edges then
        (let s = source (edges ! e) g;
             t = target (edges ! e) g;
             nt = target_ep te edges g;
             te_s = source_ep te edges g
         in if is_adjacent s nt g then Some True
            else if is_adjacent te_s t g then Some True
            else Some False)
      else None)"

definition swap_target :: "nat \<Rightarrow> edge_ref \<Rightarrow> edge_t list \<Rightarrow> graph \<Rightarrow> (edge_t list \<times> graph) option" where
  "swap_target e te edges g =
     (if e = fst te then Some (edges, g)
      else if e < length edges \<and> fst te < length edges then
        (let s_e = source (edges ! e) g;
             t_e = target (edges ! e) g;
             s_te = source_ep te edges g;
             t_te = target_ep te edges g;
             g1 = remove_edge (edges ! e) g;
             g2 = remove_edge (edges ! fst te) g1;
             (ne, g3) = add_edge s_e t_te g2;
             edges1 = edges[e := ne];
             (nte, g4) = (if \<not> snd te then add_edge s_te t_e g3 else add_edge t_e s_te g3);
             edges2 = edges1[fst te := nte]
         in Some (edges2, g4))
      else None)"



section \<open>The random source\<close>

text \<open>
  Modelled from the spec: the random source \<^verbatim>\<open>rng_t\<close> and the distributions drawn from
  it (\<^verbatim>\<open>random.hh\<close> and the standard library's \<^verbatim>\<open>uniform_int\<close>,
  \<^verbatim>\<open>bernoulli_distribution\<close>). The generator is the stream of its raw outputs; a draw
  takes the head. \<open>uniform_int lo hi\<close> lies in the closed range, and a coin with
  probability \<open>num / den\<close> falls on true for \<open>num\<close> of every \<open>den\<close> raw outputs.
  The theorems below hold for every stream, so for every way the draws can fall.
\<close>

type_synonym rng_t = "nat \<Rightarrow> nat"

definition rng_next :: "rng_t \<Rightarrow> nat \<times> rng_t" where
  "rng_next r = (r 0, \<lambda>n. r (Suc n))"

definition uniform_int :: "nat \<Rightarrow> nat \<Rightarrow> rng_t \<Rightarrow> nat \<times> rng_t" where
  "uniform_int lo hi r = (case rng_next r of (x, r') \<Rightarrow> (lo + x mod (hi - lo + 1), r'))"

definition bernoulli :: "nat \<Rightarrow> nat \<Rightarrow> rng_t \<Rightarrow> bool \<times> rng_t" where
  "bernoulli num den r = (case rng_next r of (x, r') \<Rightarrow> (den \<noteq> 0 \<and> x mod den < num, r'))"


section \<open>Doubles and the alias sampler\<close>

text \<open>
  A \<^verbatim>\<open>double\<close> is a NaN, an infinity or a finite value. The comparisons the source
  makes (\<^verbatim>\<open>isnan\<close>, \<^verbatim>\<open>isinf\<close>, \<^verbatim>\<open>p < 0\<close>, \<^verbatim>\<open>p == 0\<close>, \<^verbatim>\<open>pf >= pi\<close>, \<^verbatim>\<open>r > a\<close>) are
  exact in IEEE 754 and are defined here; a comparison with a NaN is false. Negative
  zero compares equal to zero and is not told apart from it.
  \<^verbatim>\<open>numeric_limits<double>::min()\<close> is \<open>2 ^ -1022\<close>.
\<close>

datatype double = NaN | PInf | NInf | Fin real

definition isnan :: "double \<Rightarrow> bool" where
  "isnan p = (p = NaN)"

definition isinf :: "double \<Rightarrow> bool" where
  "isinf p = (p = PInf \<or> p = NInf)"

fun d_less :: "double \<Rightarrow> double \<Rightarrow> bool" where
  "d_less NaN _ = False"
| "d_less _ NaN = False"
| "d_less PInf _ = False"
| "d_less _ PInf = True"
| "d_less _ NInf = False"
| "d_less NInf _ = True"
| "d_less (Fin x) (Fin y) = (x < y)"

fun d_eq :: "double \<Rightarrow> double \<Rightarrow> bool" where
  "d_eq NaN _ = False"
| "d_eq _ NaN = False"
| "d_eq a b = (a = b)"

definition d_ge :: "double \<Rightarrow> double \<Rightarrow> bool" where
  "d_ge a b = (d_less b a \<or> d_eq a b)"

definition numeric_limits_min :: double where
  "numeric_limits_min = Fin (1 / 2 ^ 1022)"

text \<open>
  The sanitisation of a probability, written three times in the source
  (\<^verbatim>\<open>ProbabilisticRewireStrategy\<close>'s constructor and \<^verbatim>\<open>get_prob\<close>, and
  \<^verbatim>\<open>AliasProbabilisticRewireStrategy\<close>'s constructor), and the one of
  \<^verbatim>\<open>TradBlockRewireStrategy\<close>'s constructor, which has the first step only.
\<close>

definition sanitize_prob :: "double \<Rightarrow> double" where
  "sanitize_prob p0 =
     (let p = (if isnan p0 \<or> isinf p0 \<or> d_less p0 (Fin 0) then Fin 0 else p0);
          p = (if d_eq p (Fin 0) then numeric_limits_min else p)
      in p)"

definition sanitize_trad :: "double \<Rightarrow> double" where
  "sanitize_trad p0 = (if isnan p0 \<or> isinf p0 \<or> d_less p0 (Fin 0) then Fin 0 else p0)"

text \<open>
  The arithmetic of doubles that rounds (the product of two probabilities, the ratio
  \<^verbatim>\<open>exp(log(pf) - log(pi))\<close>) and the draw of \<^verbatim>\<open>uniform_real(0.0, 1.0)\<close> are parameters
  of the strategies that use them: the theorems hold for every such arithmetic.
\<close>

record fp_arith =
  fp_mul :: "double \<Rightarrow> double \<Rightarrow> double"
  fp_exp_log_diff :: "double \<Rightarrow> double \<Rightarrow> double"
  fp_uniform_real :: "nat \<Rightarrow> double"

text \<open>
  Modelled from the spec: \<^verbatim>\<open>Sampler(items, weights)\<close> and \<^verbatim>\<open>sample(rng)\<close> of
  \<^verbatim>\<open>sampler.hh\<close> (the alias method: sampling from a fixed discrete distribution). A
  draw returns an item of positive weight; which one is the random source's choice.
  Sampling where no item has a positive weight is an error.
\<close>

datatype 'a Sampler = Sampler (s_items: "'a list") (s_probs: "double list")

definition sampler_support :: "'a Sampler \<Rightarrow> 'a list" where
  "sampler_support s =
     map fst (filter (\<lambda>(x, p). d_less (Fin 0) p) (zip (s_items s) (s_probs s)))"

definition sample :: "'a Sampler \<Rightarrow> rng_t \<Rightarrow> ('a \<times> rng_t) option" where
  "sample s r =
     (let support = sampler_support s
      in if support = [] then None
         else (case uniform_int 0 (length support - 1) r of (i, r') \<Rightarrow> Some (support ! i, r')))"


section \<open>Block abstractions\<close>

text \<open>
  A block abstraction is its \<^verbatim>\<open>get_block(v, g)\<close>: \<^verbatim>\<open>DegreeBlock\<close> reads the degrees of
  the vertex, \<^verbatim>\<open>PropertyBlock(p)\<close> the property map.
\<close>

type_synonym 'b blockdeg = "vertex_t \<Rightarrow> graph \<Rightarrow> 'b"

definition DegreeBlock :: "(nat \<times> nat) blockdeg" where
  "DegreeBlock v g = (in_degreeS v g, out_degree v g)"

definition PropertyBlock :: "(vertex_t \<Rightarrow> 'b) \<Rightarrow> 'b blockdeg" where
  "PropertyBlock p v g = p v"


section \<open>The base of the edge-pair strategies\<close>

text \<open>
  The members every strategy holds: the graph, the edge table and the random source,
  all three shared with the driver by reference. A strategy's own members extend the
  record.
\<close>

record base_state =
  s_g :: graph
  s_edges :: "edge_t list"
  s_rng :: rng_t

text \<open>
  \<^verbatim>\<open>RewireStrategyBase::operator()\<close>. The derived strategy's \<^verbatim>\<open>get_target_edge\<close> and
  \<^verbatim>\<open>update_edge\<close> are the arguments \<open>gte\<close> and \<open>upd\<close> (the source binds them
  statically through the template parameter). \<open>None\<close> is undefined behaviour of the
  source: a slot read past the end of a vector.
\<close>

definition rewire_base ::
  "('a base_state_scheme \<Rightarrow> nat \<Rightarrow> (edge_ref \<times> 'a base_state_scheme) option) \<Rightarrow>
   (nat \<Rightarrow> bool \<Rightarrow> 'a base_state_scheme \<Rightarrow> 'a base_state_scheme option) \<Rightarrow>
   'a base_state_scheme \<Rightarrow> nat \<Rightarrow> bool \<Rightarrow> bool \<Rightarrow> (bool \<times> 'a base_state_scheme) option" where
  "rewire_base gte upd st0 ei self_loops parallel_edges =
     (case gte st0 ei of
        None \<Rightarrow> None
      | Some (et, st) \<Rightarrow>
          if \<not> (ei < length (s_edges st) \<and> fst et < length (s_edges st)) then None
          else if \<not> self_loops \<and>
                  (source (s_edges st ! ei) (s_g st) = target_ep et (s_edges st) (s_g st) \<or>
                   target (s_edges st ! ei) (s_g st) = source_ep et (s_edges st) (s_g st))
          then Some (False, st)
          else if \<not> parallel_edges \<and> fst et \<noteq> ei \<and>
                  parallel_check_target ei et (s_edges st) (s_g st) = Some True
          then Some (False, st)
          else if ei \<noteq> fst et then
            (case upd ei False st of
               None \<Rightarrow> None
             | Some st1 \<Rightarrow>
            (case upd (fst et) False st1 of
               None \<Rightarrow> None
             | Some st2 \<Rightarrow>
            (case swap_target ei et (s_edges st2) (s_g st2) of
               None \<Rightarrow> None
             | Some (edges', g') \<Rightarrow>
            (case upd ei True (st2\<lparr>s_g := g', s_edges := edges'\<rparr>) of
               None \<Rightarrow> None
             | Some st3 \<Rightarrow>
            (case upd (fst et) True st3 of
               None \<Rightarrow> None
             | Some st4 \<Rightarrow> Some (True, st4))))))
          else Some (False, st))"


section \<open>RandomRewireStrategy\<close>

definition random_get_target_edge ::
  "'a base_state_scheme \<Rightarrow> nat \<Rightarrow> (edge_ref \<times> 'a base_state_scheme) option" where
  "random_get_target_edge st ei =
     (if s_edges st = [] then None
      else (case uniform_int 0 (length (s_edges st) - 1) (s_rng st) of (i, r1) \<Rightarrow>
        if \<not> directed (s_g st)
        then (case bernoulli 1 2 r1 of (c, r2) \<Rightarrow> Some ((i, c), st\<lparr>s_rng := r2\<rparr>))
        else Some ((i, False), st\<lparr>s_rng := r1\<rparr>)))"

definition random_update_edge ::
  "nat \<Rightarrow> bool \<Rightarrow> 'a base_state_scheme \<Rightarrow> 'a base_state_scheme option" where
  "random_update_edge ei ins st = Some st"

definition random_rewire ::
  "'a base_state_scheme \<Rightarrow> nat \<Rightarrow> bool \<Rightarrow> bool \<Rightarrow> (bool \<times> 'a base_state_scheme) option" where
  "random_rewire = rewire_base random_get_target_edge random_update_edge"

text \<open>
  The constructors take the arguments the driver passes to every strategy: the graph,
  the edge table, \<^verbatim>\<open>corr_prob\<close>, the block abstraction, the cache flag and the random
  source (the edge index map is used by no strategy and is left out).
\<close>

definition RandomRewireStrategy ::
  "graph \<Rightarrow> edge_t list \<Rightarrow> ('b \<Rightarrow> 'b \<Rightarrow> double) \<Rightarrow> 'b blockdeg \<Rightarrow> bool \<Rightarrow> rng_t \<Rightarrow> base_state" where
  "RandomRewireStrategy g edges corr_prob blockdeg cache rng =
     \<lparr>s_g = g, s_edges = edges, s_rng = rng\<rparr>"


section \<open>CorrelatedRewireStrategy\<close>

text \<open>
  \<^verbatim>\<open>_edges_by_target\<close> is an \<^verbatim>\<open>unordered_map\<close> read with \<^verbatim>\<open>operator[]\<close>, which gives the
  empty vector for a key it does not hold: a total function into lists. The
  constructor and \<^verbatim>\<open>get_target_edge\<close> compute the key from the degrees of the vertex;
  the \<^verbatim>\<open>BlockDeg\<close> argument of the constructor has no name and is not used.
\<close>

record correlated_state = base_state +
  edges_by_target :: "nat \<times> nat \<Rightarrow> edge_ref list"

definition correlated_index_edge ::
  "graph \<Rightarrow> edge_t list \<Rightarrow> (nat \<times> nat \<Rightarrow> edge_ref list) \<Rightarrow> nat \<Rightarrow> (nat \<times> nat \<Rightarrow> edge_ref list)" where
  "correlated_index_edge g edges ebt ei =
     (let e = edges ! ei;
          t = target e g;
          tdeg = (in_degreeS t g, out_degree t g);
          ebt = ebt(tdeg := ebt tdeg @ [(ei, False)])
      in if \<not> directed g
         then (let t = source e g;
                   tdeg = (in_degreeS t g, out_degree t g)
               in ebt(tdeg := ebt tdeg @ [(ei, True)]))
         else ebt)"

definition CorrelatedRewireStrategy ::
  "graph \<Rightarrow> edge_t list \<Rightarrow> ('b \<Rightarrow> 'b \<Rightarrow> double) \<Rightarrow> 'b blockdeg \<Rightarrow> bool \<Rightarrow> rng_t \<Rightarrow>
   correlated_state" where
  "CorrelatedRewireStrategy g edges corr_prob blockdeg cache rng =
     \<lparr>s_g = g, s_edges = edges, s_rng = rng,
      edges_by_target = foldl (correlated_index_edge g edges) (\<lambda>_. []) [0..<length edges]\<rparr>"

definition correlated_get_target_edge ::
  "correlated_state \<Rightarrow> nat \<Rightarrow> (edge_ref \<times> correlated_state) option" where
  "correlated_get_target_edge st ei =
     (if \<not> ei < length (s_edges st) then None
      else
        (let e = s_edges st ! ei;
             t = target e (s_g st);
             tdeg = (in_degreeS t (s_g st), out_degree t (s_g st));
             elist = edges_by_target st tdeg
         in if elist = [] then None
            else (case uniform_int 0 (length elist - 1) (s_rng st) of (i, r1) \<Rightarrow>
                    Some (elist ! i, st\<lparr>s_rng := r1\<rparr>))))"

definition correlated_update_edge :: "nat \<Rightarrow> bool \<Rightarrow> correlated_state \<Rightarrow> correlated_state option" where
  "correlated_update_edge ei ins st = Some st"

definition correlated_rewire ::
  "correlated_state \<Rightarrow> nat \<Rightarrow> bool \<Rightarrow> bool \<Rightarrow> (bool \<times> correlated_state) option" where
  "correlated_rewire = rewire_base correlated_get_target_edge correlated_update_edge"


section \<open>ProbabilisticRewireStrategy\<close>

text \<open>
  The set of blocks met at the endpoints of the edges (\<^verbatim>\<open>deg_set\<close>, an
  \<^verbatim>\<open>unordered_set\<close>) is a list without repetitions; its iteration order, which the
  source leaves to the hash table, is the order of the list. The table \<^verbatim>\<open>_probs\<close> is an
  association list: \<^verbatim>\<open>_probs.empty()\<close> is decidable on it, an assignment through
  \<^verbatim>\<open>operator[]\<close> is \<open>AList.update\<close>, and a read through \<^verbatim>\<open>operator[]\<close> of a key the table
  does not hold adds the key with the value 0.0 and returns it.
\<close>

definition collect_blocks :: "'b blockdeg \<Rightarrow> graph \<Rightarrow> edge_t list \<Rightarrow> 'b list" where
  "collect_blocks bd g edges =
     foldl (\<lambda>ds e. List.insert (bd (target e g) g) (List.insert (bd (source e g) g) ds)) [] edges"

definition cache_probs :: "('b \<Rightarrow> 'b \<Rightarrow> double) \<Rightarrow> 'b list \<Rightarrow> (('b \<times> 'b) \<times> double) list" where
  "cache_probs corr_prob deg_set =
     foldl (\<lambda>al (s, t). AList.update (s, t) (sanitize_prob (corr_prob s t)) al) []
           (List.product deg_set deg_set)"

definition probs_lookup ::
  "(('b \<times> 'b) \<times> double) list \<Rightarrow> 'b \<times> 'b \<Rightarrow> double \<times> (('b \<times> 'b) \<times> double) list" where
  "probs_lookup al k =
     (case map_of al k of
        Some p \<Rightarrow> (p, al)
      | None \<Rightarrow> (Fin 0, AList.update k (Fin 0) al))"

record 'b probabilistic_state = base_state +
  p_corr_prob :: "'b \<Rightarrow> 'b \<Rightarrow> double"
  p_blockdeg :: "'b blockdeg"
  p_probs :: "(('b \<times> 'b) \<times> double) list"

definition ProbabilisticRewireStrategy ::
  "graph \<Rightarrow> edge_t list \<Rightarrow> ('b \<Rightarrow> 'b \<Rightarrow> double) \<Rightarrow> 'b blockdeg \<Rightarrow> bool \<Rightarrow> rng_t \<Rightarrow>
   'b probabilistic_state" where
  "ProbabilisticRewireStrategy g edges corr_prob blockdeg cache rng =
     \<lparr>s_g = g, s_edges = edges, s_rng = rng,
      p_corr_prob = corr_prob, p_blockdeg = blockdeg,
      p_probs = (if cache then cache_probs corr_prob (collect_blocks blockdeg g edges) else [])\<rparr>"

definition probabilistic_get_prob ::
  "'b probabilistic_state \<Rightarrow> 'b \<Rightarrow> 'b \<Rightarrow> double \<times> 'b probabilistic_state" where
  "probabilistic_get_prob st s_deg t_deg =
     (if p_probs st = [] then (sanitize_prob (p_corr_prob st s_deg t_deg), st)
      else (case probs_lookup (p_probs st) (s_deg, t_deg) of
              (p, al) \<Rightarrow> (p, st\<lparr>p_probs := al\<rparr>)))"

text \<open>
  The acceptance step shared by \<^verbatim>\<open>ProbabilisticRewireStrategy::get_target_edge\<close> and
  \<^verbatim>\<open>AliasProbabilisticRewireStrategy::get_target_edge\<close> (the same lines in both): from
  \<^verbatim>\<open>if (pf >= pi)\<close> to the end of the function, with \<open>p_i\<close> and \<open>p_f\<close> for the
  source's \<^verbatim>\<open>pi\<close> and \<^verbatim>\<open>pf\<close>. It returns the EdgeRef and the random source.
\<close>

definition accept_step ::
  "fp_arith \<Rightarrow> nat \<Rightarrow> edge_ref \<Rightarrow> double \<Rightarrow> double \<Rightarrow> rng_t \<Rightarrow> edge_ref \<times> rng_t" where
  "accept_step fp ei ep p_i p_f rng =
     (if d_ge p_f p_i then (ep, rng)
      else if d_eq p_f (Fin 0) then ((ei, False), rng)
      else
        (let a = fp_exp_log_diff fp p_f p_i
         in (case rng_next rng of (x, r') \<Rightarrow>
               (let r = fp_uniform_real fp x
                in if d_less a r then ((ei, False), r') else (ep, r')))))"

definition probabilistic_get_target_edge ::
  "fp_arith \<Rightarrow> 'b probabilistic_state \<Rightarrow> nat \<Rightarrow> (edge_ref \<times> 'b probabilistic_state) option" where
  "probabilistic_get_target_edge fp st ei =
     (if \<not> ei < length (s_edges st) then None
      else
        (let g = s_g st; edges = s_edges st;
             s_deg = p_blockdeg st (source (edges ! ei) g) g;
             t_deg = p_blockdeg st (target (edges ! ei) g) g
         in (case uniform_int 0 (length edges - 1) (s_rng st) of (epi, r1) \<Rightarrow>
            (case (if \<not> directed g then bernoulli 1 2 r1 else (False, r1)) of (c, r2) \<Rightarrow>
              (let ep = (epi, c);
                   ep_s_deg = p_blockdeg st (source_ep ep edges g) g;
                   ep_t_deg = p_blockdeg st (target_ep ep edges g) g
               in (case probabilistic_get_prob st s_deg t_deg of (p1, st1) \<Rightarrow>
                  (case probabilistic_get_prob st1 ep_s_deg ep_t_deg of (p2, st2) \<Rightarrow>
                  (case probabilistic_get_prob st2 s_deg ep_t_deg of (p3, st3) \<Rightarrow>
                  (case probabilistic_get_prob st3 ep_s_deg t_deg of (p4, st4) \<Rightarrow>
                    (let p_i = fp_mul fp p1 p2;
                         p_f = fp_mul fp p3 p4
                     in (case accept_step fp ei ep p_i p_f r2 of (res, r3) \<Rightarrow>
                           Some (res, st4\<lparr>s_rng := r3\<rparr>))))))))))))"

definition probabilistic_update_edge ::
  "nat \<Rightarrow> bool \<Rightarrow> 'b probabilistic_state \<Rightarrow> 'b probabilistic_state option" where
  "probabilistic_update_edge ei ins st = Some st"

definition probabilistic_rewire ::
  "fp_arith \<Rightarrow> 'b probabilistic_state \<Rightarrow> nat \<Rightarrow> bool \<Rightarrow> bool \<Rightarrow>
   (bool \<times> 'b probabilistic_state) option" where
  "probabilistic_rewire fp =
     rewire_base (probabilistic_get_target_edge fp) probabilistic_update_edge"


section \<open>AliasProbabilisticRewireStrategy\<close>

text \<open>
  \<^verbatim>\<open>_sampler\<close> maps a block to a pointer to its sampler (no entry: a null pointer, whose
  use is undefined); \<^verbatim>\<open>_in_edges\<close> and \<^verbatim>\<open>_out_edges\<close> map a block to a vector of
  slots, empty where \<^verbatim>\<open>operator[]\<close> finds no entry; \<^verbatim>\<open>_in_pos\<close> and \<^verbatim>\<open>_out_pos\<close> are
  vectors indexed by slot.
\<close>

record 'b alias_state = base_state +
  a_corr_prob :: "'b \<Rightarrow> 'b \<Rightarrow> double"
  a_blockdeg :: "'b blockdeg"
  a_items :: "'b list"
  a_sampler :: "'b \<Rightarrow> 'b Sampler option"
  a_probs :: "(('b \<times> 'b) \<times> double) list"
  a_in_edges :: "'b \<Rightarrow> nat list"
  a_out_edges :: "'b \<Rightarrow> nat list"
  a_in_pos :: "nat list"
  a_out_pos :: "nat list"

text \<open>
  The lines that file a slot under the block of its target (and, in an undirected
  graph, of its source): the body of the constructor's last loop and the insert branch
  of \<^verbatim>\<open>update_edge\<close>, which are the same lines.
\<close>

definition alias_push :: "nat \<Rightarrow> 'b alias_state \<Rightarrow> 'b alias_state" where
  "alias_push ei st =
     (let v = target (s_edges st ! ei) (s_g st);
          d = a_blockdeg st v (s_g st);
          ies = a_in_edges st d @ [ei];
          st = st\<lparr>a_in_edges := (a_in_edges st)(d := ies),
                  a_in_pos := (a_in_pos st)[ei := length ies - 1]\<rparr>
      in if \<not> directed (s_g st)
         then (let v = source (s_edges st ! ei) (s_g st);
                   d = a_blockdeg st v (s_g st);
                   oes = a_out_edges st d @ [ei]
               in st\<lparr>a_out_edges := (a_out_edges st)(d := oes),
                     a_out_pos := (a_out_pos st)[ei := length oes - 1]\<rparr>)
         else st)"

definition alias_samplers ::
  "('b \<Rightarrow> 'b \<Rightarrow> double) \<Rightarrow> 'b list \<Rightarrow> 'b \<Rightarrow> 'b Sampler option" where
  "alias_samplers corr_prob deg_set =
     foldl (\<lambda>m s. m(s \<mapsto> Sampler deg_set (map (\<lambda>t. sanitize_prob (corr_prob s t)) deg_set)))
           Map.empty deg_set"

definition AliasProbabilisticRewireStrategy ::
  "graph \<Rightarrow> edge_t list \<Rightarrow> ('b \<Rightarrow> 'b \<Rightarrow> double) \<Rightarrow> 'b blockdeg \<Rightarrow> bool \<Rightarrow> rng_t \<Rightarrow>
   'b alias_state" where
  "AliasProbabilisticRewireStrategy g edges corr_prob blockdeg cache rng =
     (let deg_set = collect_blocks blockdeg g edges;
          st = \<lparr>s_g = g, s_edges = edges, s_rng = rng,
                a_corr_prob = corr_prob, a_blockdeg = blockdeg,
                a_items = deg_set,
                a_sampler = alias_samplers corr_prob deg_set,
                a_probs = cache_probs corr_prob deg_set,
                a_in_edges = (\<lambda>_. []), a_out_edges = (\<lambda>_. []),
                a_in_pos = replicate (length edges) 0,
                a_out_pos = (if \<not> directed g then replicate (length edges) 0 else [])\<rparr>
      in foldl (\<lambda>st i. alias_push i st) st [0..<length edges])"

definition alias_get_prob :: "'b alias_state \<Rightarrow> 'b \<Rightarrow> 'b \<Rightarrow> double \<times> 'b alias_state" where
  "alias_get_prob st s_deg t_deg =
     (case probs_lookup (a_probs st) (s_deg, t_deg) of (p, al) \<Rightarrow> (p, st\<lparr>a_probs := al\<rparr>))"

text \<open>
  The choice of the candidate in \<^verbatim>\<open>get_target_edge\<close>: the coin is
  \<^verbatim>\<open>bernoulli_distribution(|in| / double(|in| + |out|))\<close>, drawn only in an undirected
  graph; a bucket that is empty where a slot is read from it is undefined behaviour.
\<close>

definition alias_candidate :: "'b alias_state \<Rightarrow> 'b \<Rightarrow> rng_t \<Rightarrow> (edge_ref \<times> rng_t) option" where
  "alias_candidate st nt r =
     (case (if directed (s_g st) then (True, r)
            else bernoulli (length (a_in_edges st nt))
                   (length (a_in_edges st nt) + length (a_out_edges st nt)) r) of
        (c, r1) \<Rightarrow>
          if c then
            (let ies = a_in_edges st nt
             in if ies = [] then None
                else (case uniform_int 0 (length ies - 1) r1 of (i, r2) \<Rightarrow>
                        Some ((ies ! i, False), r2)))
          else
            (let oes = a_out_edges st nt
             in if oes = [] then None
                else (case uniform_int 0 (length oes - 1) r1 of (i, r2) \<Rightarrow>
                        Some ((oes ! i, True), r2))))"

definition alias_get_target_edge ::
  "fp_arith \<Rightarrow> 'b alias_state \<Rightarrow> nat \<Rightarrow> (edge_ref \<times> 'b alias_state) option" where
  "alias_get_target_edge fp st ei =
     (if \<not> ei < length (s_edges st) then None
      else
        (let g = s_g st; edges = s_edges st;
             s_deg = a_blockdeg st (source (edges ! ei) g) g;
             t_deg = a_blockdeg st (target (edges ! ei) g) g
         in (case a_sampler st s_deg of
               None \<Rightarrow> None
             | Some smp \<Rightarrow>
            (case sample smp (s_rng st) of
               None \<Rightarrow> None
             | Some (nt, r1) \<Rightarrow>
            (case alias_candidate st nt r1 of
               None \<Rightarrow> None
             | Some (ep, r2) \<Rightarrow>
                if \<not> fst ep < length edges then None
                else
                  (let ep_s_deg = a_blockdeg st (source_ep ep edges g) g;
                       ep_t_deg = a_blockdeg st (target_ep ep edges g) g
                   in (case alias_get_prob st s_deg t_deg of (p1, st1) \<Rightarrow>
                      (case alias_get_prob st1 ep_s_deg ep_t_deg of (p2, st2) \<Rightarrow>
                      (case alias_get_prob st2 s_deg ep_t_deg of (p3, st3) \<Rightarrow>
                      (case alias_get_prob st3 ep_s_deg t_deg of (p4, st4) \<Rightarrow>
                        (let p_i = fp_mul fp p1 p2;
                             p_f = fp_mul fp p3 p4
                         in (case accept_step fp ei ep p_i p_f r2 of (res, r3) \<Rightarrow>
                               Some (res, st4\<lparr>s_rng := r3\<rparr>)))))))))))))"

definition alias_update_edge :: "nat \<Rightarrow> bool \<Rightarrow> 'b alias_state \<Rightarrow> 'b alias_state option" where
  "alias_update_edge ei ins st =
     (if ins then
        (if ei < length (s_edges st) \<and> ei < length (a_in_pos st) \<and>
            (\<not> directed (s_g st) \<longrightarrow> ei < length (a_out_pos st))
         then Some (alias_push ei st) else None)
      else if \<not> directed (s_g st) then
        (if \<not> (ei < length (s_edges st) \<and> ei < length (a_in_pos st)) then None
         else
           (let v = target (s_edges st ! ei) (s_g st);
                d = a_blockdeg st v (s_g st);
                j = a_in_pos st ! ei;
                ies = a_in_edges st d
            in if ies = [] \<or> \<not> last ies < length (a_in_pos st) \<or> \<not> j < length ies then None
               else Some (st\<lparr>a_in_pos := (a_in_pos st)[last ies := j],
                             a_in_edges := (a_in_edges st)(d := butlast (ies[j := last ies]))\<rparr>)))
      else Some st)"

definition alias_rewire ::
  "fp_arith \<Rightarrow> 'b alias_state \<Rightarrow> nat \<Rightarrow> bool \<Rightarrow> bool \<Rightarrow> (bool \<times> 'b alias_state) option" where
  "alias_rewire fp = rewire_base (alias_get_target_edge fp) alias_update_edge"


section \<open>ErdosRewireStrategy\<close>

text \<open>
  The sampling loop \<^verbatim>\<open>while (true)\<close> draws again while it draws a self-loop that is
  not allowed; it need not end (one vertex, no self-loops), so it is a partial function
  whose \<open>None\<close> is the loop that never ends. A draw among no vertices is undefined
  behaviour and \<open>None\<close> as well.
\<close>

record erdos_state = base_state +
  e_vertices :: "vertex_t list"

definition ErdosRewireStrategy ::
  "graph \<Rightarrow> edge_t list \<Rightarrow> ('b \<Rightarrow> 'b \<Rightarrow> double) \<Rightarrow> 'b blockdeg \<Rightarrow> bool \<Rightarrow> rng_t \<Rightarrow>
   erdos_state" where
  "ErdosRewireStrategy g edges corr_prob blockdeg cache rng =
     \<lparr>s_g = g, s_edges = edges, s_rng = rng, e_vertices = [0..<num_vertices g]\<rparr>"

partial_function (option) erdos_draw :: "nat \<Rightarrow> bool \<Rightarrow> rng_t \<Rightarrow> ((vertex_t \<times> vertex_t) \<times> rng_t) option" where
  "erdos_draw n self_loops r =
     (case uniform_int 0 (n - 1) r of (s, r1) \<Rightarrow>
      case uniform_int 0 (n - 1) r1 of (t, r2) \<Rightarrow>
        if s = t \<and> \<not> self_loops then erdos_draw n self_loops r2
        else Some ((s, t), r2))"

definition erdos_rewire :: "erdos_state \<Rightarrow> nat \<Rightarrow> bool \<Rightarrow> bool \<Rightarrow> (bool \<times> erdos_state) option" where
  "erdos_rewire st ei self_loops parallel_edges =
     (if e_vertices st = [] then None
      else
        (case erdos_draw (length (e_vertices st)) self_loops (s_rng st) of
           None \<Rightarrow> None
         | Some ((s, t), r) \<Rightarrow>
             if \<not> parallel_edges \<and> is_adjacent s t (s_g st) then Some (False, st\<lparr>s_rng := r\<rparr>)
             else if \<not> ei < length (s_edges st) then None
             else
               (let g1 = remove_edge (s_edges st ! ei) (s_g st)
                in (case add_edge s t g1 of (ne, g2) \<Rightarrow>
                      Some (True, st\<lparr>s_g := g2, s_edges := (s_edges st)[ei := ne], s_rng := r\<rparr>)))))"


section \<open>TradBlockRewireStrategy\<close>

text \<open>
  \<^verbatim>\<open>_vertices\<close> maps a block to the vector of its vertices; the constructor iterates
  over it, so it is an association list, in the order the blocks are first met.
\<close>

record 'b trad_state = base_state +
  t_corr_prob :: "'b \<Rightarrow> 'b \<Rightarrow> double"
  t_blockdeg :: "'b blockdeg"
  t_vertices :: "('b \<times> vertex_t list) list"
  t_items :: "('b \<times> 'b) list"
  t_sampler :: "('b \<times> 'b) Sampler"

definition vertices_of :: "('b \<times> vertex_t list) list \<Rightarrow> 'b \<Rightarrow> vertex_t list" where
  "vertices_of al d = (case map_of al d of None \<Rightarrow> [] | Some vs \<Rightarrow> vs)"

definition trad_vertices :: "'b blockdeg \<Rightarrow> graph \<Rightarrow> ('b \<times> vertex_t list) list" where
  "trad_vertices bd g =
     foldl (\<lambda>al v. (let d = bd v g in AList.update d (vertices_of al d @ [v]) al)) []
           [0..<num_vertices g]"

definition TradBlockRewireStrategy ::
  "graph \<Rightarrow> edge_t list \<Rightarrow> ('b \<Rightarrow> 'b \<Rightarrow> double) \<Rightarrow> 'b blockdeg \<Rightarrow> bool \<Rightarrow> rng_t \<Rightarrow>
   'b trad_state" where
  "TradBlockRewireStrategy g edges corr_prob blockdeg cache rng =
     (let vs = trad_vertices blockdeg g;
          items = List.product (map fst vs) (map fst vs);
          probs = map (\<lambda>(s, t). sanitize_trad (corr_prob s t)) items
      in \<lparr>s_g = g, s_edges = edges, s_rng = rng,
          t_corr_prob = corr_prob, t_blockdeg = blockdeg,
          t_vertices = vs, t_items = items, t_sampler = Sampler items probs\<rparr>)"

definition trad_rewire :: "'b trad_state \<Rightarrow> nat \<Rightarrow> bool \<Rightarrow> bool \<Rightarrow> (bool \<times> 'b trad_state) option" where
  "trad_rewire st ei self_loops parallel_edges =
     (case sample (t_sampler st) (s_rng st) of
        None \<Rightarrow> None
      | Some (deg, r1) \<Rightarrow>
          (let svs = vertices_of (t_vertices st) (fst deg);
               tvs = vertices_of (t_vertices st) (snd deg)
           in if svs = [] \<or> tvs = [] then None
              else
                (case uniform_int 0 (length svs - 1) r1 of (i, r2) \<Rightarrow>
                 case uniform_int 0 (length tvs - 1) r2 of (j, r3) \<Rightarrow>
                   (let s = svs ! i; t = tvs ! j
                    in if \<not> self_loops \<and> s = t then Some (False, st\<lparr>s_rng := r3\<rparr>)
                       else if \<not> parallel_edges \<and> is_adjacent s t (s_g st)
                       then Some (False, st\<lparr>s_rng := r3\<rparr>)
                       else if \<not> ei < length (s_edges st) then None
                       else
                         (let g1 = remove_edge (s_edges st ! ei) (s_g st)
                          in (case add_edge s t g1 of (ne, g2) \<Rightarrow>
                                Some (True, st\<lparr>s_g := g2, s_edges := (s_edges st)[ei := ne],
                                               s_rng := r3\<rparr>)))))))"


section \<open>The driver\<close>

text \<open>
  \<^verbatim>\<open>graph_rewire::operator()\<close>. The driver's locals are the strategy object (which holds
  the graph, the edge table and the random source by reference), \<^verbatim>\<open>edge_pos\<close> and
  \<^verbatim>\<open>pcount\<close>. The progress display does not touch the state and is left out.
  \<^verbatim>\<open>size_t\<close> counters are natural numbers: \<^verbatim>\<open>pcount\<close> is at most the number of
  passes through the loop body.
\<close>

record 's driver_state =
  d_rewire :: 's
  d_edge_pos :: "nat list"
  d_pcount :: nat

text \<open>
  The retry loop \<^verbatim>\<open>do { success = rewire(...); } while (persist && !success)\<close>. It need
  not end; \<open>None\<close> is the loop that never ends, or undefined behaviour of the strategy.
\<close>

partial_function (option) persist_loop ::
  "('s \<Rightarrow> (bool \<times> 's) option) \<Rightarrow> bool \<Rightarrow> 's \<Rightarrow> (bool \<times> 's) option" where
  "persist_loop step persist st =
     (case step st of
        None \<Rightarrow> None
      | Some (success, st') \<Rightarrow>
          if persist \<and> \<not> success then persist_loop step persist st' else Some (success, st'))"

text \<open>
  Modelled from the spec: \<^verbatim>\<open>random_permutation_iterator\<close> of \<^verbatim>\<open>random.hh\<close>, which
  draws the random permutation of a sweep lazily and in place: on reaching position
  \<open>i\<close> it exchanges \<^verbatim>\<open>edge_pos[i]\<close> with a uniformly drawn entry at or after \<open>i\<close>.
\<close>

definition random_permutation_step :: "nat \<Rightarrow> nat list \<Rightarrow> rng_t \<Rightarrow> nat list \<times> rng_t" where
  "random_permutation_step i pos r =
     (case uniform_int 0 (length pos - i - 1) r of (j, r') \<Rightarrow>
        (pos[i := pos ! (i + j), i + j := pos ! i], r'))"

text \<open>
  The inner loop from position \<open>i\<close> on; \<open>k\<close> is the number of positions left, so the
  loop is entered with \<open>i = 0\<close> and \<open>k = length edge_pos\<close>.
\<close>

fun sweep_loop ::
  "('a base_state_scheme \<Rightarrow> nat \<Rightarrow> bool \<Rightarrow> bool \<Rightarrow> (bool \<times> 'a base_state_scheme) option) \<Rightarrow>
   bool \<Rightarrow> bool \<Rightarrow> bool \<Rightarrow> bool \<Rightarrow> nat \<Rightarrow> nat \<Rightarrow>
   'a base_state_scheme driver_state \<Rightarrow> 'a base_state_scheme driver_state option" where
  "sweep_loop rewire self_loops parallel_edges persist no_sweep i 0 d = Some d"
| "sweep_loop rewire self_loops parallel_edges persist no_sweep i (Suc k) d =
     (case random_permutation_step i (d_edge_pos d) (s_rng (d_rewire d)) of (pos, r) \<Rightarrow>
        (let ei = pos ! i
         in (case persist_loop (\<lambda>st. rewire st ei self_loops parallel_edges) persist
                    ((d_rewire d)\<lparr>s_rng := r\<rparr>) of
               None \<Rightarrow> None
             | Some (success, st) \<Rightarrow>
                 (let d' = d\<lparr>d_rewire := st, d_edge_pos := pos,
                             d_pcount := (if \<not> success then d_pcount d + 1 else d_pcount d)\<rparr>
                  in if no_sweep then Some d'
                     else sweep_loop rewire self_loops parallel_edges persist no_sweep (Suc i) k d'))))"

fun iter_loop ::
  "('a base_state_scheme \<Rightarrow> nat \<Rightarrow> bool \<Rightarrow> bool \<Rightarrow> (bool \<times> 'a base_state_scheme) option) \<Rightarrow>
   bool \<Rightarrow> bool \<Rightarrow> bool \<Rightarrow> bool \<Rightarrow> nat \<Rightarrow>
   'a base_state_scheme driver_state \<Rightarrow> 'a base_state_scheme driver_state option" where
  "iter_loop rewire self_loops parallel_edges persist no_sweep 0 d = Some d"
| "iter_loop rewire self_loops parallel_edges persist no_sweep (Suc n) d =
     (case sweep_loop rewire self_loops parallel_edges persist no_sweep 0
             (length (d_edge_pos d)) d of
        None \<Rightarrow> None
      | Some d' \<Rightarrow> iter_loop rewire self_loops parallel_edges persist no_sweep n d')"

text \<open>
  The entry point. \<open>ctor\<close> is the constructor of the strategy the template parameter
  names, \<open>rewire\<close> its \<^verbatim>\<open>operator()\<close>.
\<close>

definition graph_rewire ::
  "(graph \<Rightarrow> edge_t list \<Rightarrow> ('b \<Rightarrow> 'b \<Rightarrow> double) \<Rightarrow> 'b blockdeg \<Rightarrow> bool \<Rightarrow> rng_t \<Rightarrow>
      'a base_state_scheme) \<Rightarrow>
   ('a base_state_scheme \<Rightarrow> nat \<Rightarrow> bool \<Rightarrow> bool \<Rightarrow> (bool \<times> 'a base_state_scheme) option) \<Rightarrow>
   graph \<Rightarrow> ('b \<Rightarrow> 'b \<Rightarrow> double) \<Rightarrow> bool \<Rightarrow> bool \<Rightarrow> nat \<times> bool \<Rightarrow> bool \<times> bool \<times> bool \<Rightarrow>
   rng_t \<Rightarrow> 'b blockdeg \<Rightarrow> 'a base_state_scheme driver_state option" where
  "graph_rewire ctor rewire g corr_prob self_loops parallel_edges iter_sweep cache_verbose rng bd =
     (let persist = fst cache_verbose;
          cache = fst (snd cache_verbose);
          edges = edge_list g;
          edge_pos = [0..<length edges];
          st = ctor g edges corr_prob bd cache rng;
          niter = fst iter_sweep;
          no_sweep = snd iter_sweep
      in iter_loop rewire self_loops parallel_edges persist no_sweep niter
           \<lparr>d_rewire = st, d_edge_pos = edge_pos, d_pcount = 0\<rparr>)"


section \<open>Properties of the swap primitive\<close>

lemma directed_remove_edge [simp]: "directed (remove_edge e g) = directed g"
  by (simp add: remove_edge_def)

lemma directed_add_edge [simp]: "directed (snd (add_edge s t g)) = directed g"
  by (simp add: add_edge_def Let_def)

lemma count_remove1:
  "a \<in> set xs \<Longrightarrow>
     length (filter P (remove1 a xs)) + (if P a then 1 else 0) = length (filter P xs)"
  by (induction xs) auto

definition ind :: "bool \<Rightarrow> nat" where "ind b = (if b then 1 else 0)"

lemma table_ok_distinct: "table_ok g edges \<Longrightarrow> distinct edges"
  unfolding table_ok_def graph_ok_def by (metis mset_eq_imp_distinct_iff)

lemma table_ok_set: "table_ok g edges \<Longrightarrow> set edges = set (edge_list g)"
  unfolding table_ok_def by (metis mset_eq_setD)

lemma table_ok_nth:
  assumes "table_ok g edges" "i < length edges"
  shows "edges ! i \<in> set (edge_list g)"
  using table_ok_set[OF assms(1)] nth_mem[OF assms(2)] by blast

lemma table_ok_nth_neq:
  assumes "table_ok g edges" "i < length edges" "j < length edges" "i \<noteq> j"
  shows "edges ! i \<noteq> edges ! j"
  using table_ok_distinct[OF assms(1)] assms(2-4) by (simp add: nth_eq_iff_index_eq)

lemma table_ok_idx:
  assumes "table_ok g edges" "i < length edges"
  shows "e_idx (edges ! i) < next_edge g"
proof -
  have "list_all (\<lambda>e. e_idx e < next_edge g) (edge_list g)"
    using assms(1) unfolding table_ok_def graph_ok_def by blast
  then show ?thesis using table_ok_nth[OF assms] by (simp add: list_all_iff)
qed

text \<open>The two descriptors a swap adds.\<close>

definition swap_ne :: "nat \<Rightarrow> edge_ref \<Rightarrow> edge_t list \<Rightarrow> graph \<Rightarrow> edge_t" where
  "swap_ne e te edges g = Edge (e_src (edges ! e)) (target_ep te edges g) (next_edge g)"

definition swap_nte :: "nat \<Rightarrow> edge_ref \<Rightarrow> edge_t list \<Rightarrow> graph \<Rightarrow> edge_t" where
  "swap_nte e te edges g =
     (if snd te then Edge (e_tgt (edges ! e)) (source_ep te edges g) (Suc (next_edge g))
      else Edge (source_ep te edges g) (e_tgt (edges ! e)) (Suc (next_edge g)))"

lemma swap_target_unfold:
  assumes "e \<noteq> fst te" "e < length edges" "fst te < length edges"
  shows "swap_target e te edges g =
     Some (edges[e := swap_ne e te edges g, fst te := swap_nte e te edges g],
           g\<lparr>edge_list := remove1 (edges ! fst te) (remove1 (edges ! e) (edge_list g))
                   @ [swap_ne e te edges g, swap_nte e te edges g],
             next_edge := Suc (Suc (next_edge g))\<rparr>)"
  using assms
  by (simp add: swap_target_def Let_def add_edge_def remove_edge_def source_def target_def
        swap_ne_def swap_nte_def)

lemma count_replace2:
  assumes "a \<in> set xs" "b \<in> set xs" "a \<noteq> b"
  shows "length (filter P (remove1 b (remove1 a xs) @ [x, y])) + ind (P a) + ind (P b)
       = length (filter P xs) + ind (P x) + ind (P y)"
proof -
  have "b \<in> set (remove1 a xs)" using assms by simp
  from count_remove1[OF this, of P] count_remove1[OF assms(1), of P]
  show ?thesis by (simp add: ind_def)
qed

lemma swap_target_degrees:
  assumes ok: "table_ok g edges"
    and ne: "e \<noteq> fst te" and r1: "e < length edges" and r2: "fst te < length edges"
    and dir: "directed g \<longrightarrow> \<not> snd te"
    and sw: "swap_target e te edges g = Some (edges', g')"
  shows "out_degree v g' = out_degree v g \<and> in_degree v g' = in_degree v g"
proof -
  define a where "a = edges ! e"
  define b where "b = edges ! fst te"
  define n1 where "n1 = swap_ne e te edges g"
  define n2 where "n2 = swap_nte e te edges g"
  define es' where "es' = remove1 b (remove1 a (edge_list g)) @ [n1, n2]"
  have ab: "a \<noteq> b" unfolding a_def b_def by (rule table_ok_nth_neq[OF ok r1 r2 ne])
  have ain: "a \<in> set (edge_list g)" and bin: "b \<in> set (edge_list g)"
    unfolding a_def b_def by (rule table_ok_nth[OF ok r1], rule table_ok_nth[OF ok r2])
  have el: "edge_list g' = es'" and d: "directed g' = directed g"
    using sw unfolding swap_target_unfold[OF ne r1 r2]
    by (auto simp: es'_def n1_def n2_def a_def b_def)
  have S: "length (filter (\<lambda>x. e_src x = v) es') + ind (e_src a = v) + ind (e_src b = v)
         = length (filter (\<lambda>x. e_src x = v) (edge_list g)) + ind (e_src n1 = v) + ind (e_src n2 = v)"
    unfolding es'_def by (rule count_replace2[OF ain bin ab])
  have T: "length (filter (\<lambda>x. e_tgt x = v) es') + ind (e_tgt a = v) + ind (e_tgt b = v)
         = length (filter (\<lambda>x. e_tgt x = v) (edge_list g)) + ind (e_tgt n1 = v) + ind (e_tgt n2 = v)"
    unfolding es'_def by (rule count_replace2[OF ain bin ab])
  show ?thesis
  proof (cases "snd te")
    case True
    then have nd: "\<not> directed g" using dir by blast
    have n: "e_src n1 = e_src a" "e_tgt n1 = e_src b" "e_src n2 = e_tgt a" "e_tgt n2 = e_tgt b"
      using True by (simp_all add: n1_def n2_def swap_ne_def swap_nte_def a_def b_def
          source_ep_def target_ep_def source_def target_def)
    show ?thesis using S T nd unfolding out_degree_def in_degree_def el d n by simp
  next
    case False
    have n: "e_src n1 = e_src a" "e_tgt n1 = e_tgt b" "e_src n2 = e_src b" "e_tgt n2 = e_tgt a"
      using False by (simp_all add: n1_def n2_def swap_ne_def swap_nte_def a_def b_def
          source_ep_def target_ep_def source_def target_def)
    show ?thesis using S T unfolding out_degree_def in_degree_def el d n by simp
  qed
qed

lemma swap_target_table_ok:
  assumes ok: "table_ok g edges"
    and ne: "e \<noteq> fst te" and r1: "e < length edges" and r2: "fst te < length edges"
    and sw: "swap_target e te edges g = Some (edges', g')"
  shows "table_ok g' edges'"
proof -
  define a where "a = edges ! e"
  define b where "b = edges ! fst te"
  define n1 where "n1 = swap_ne e te edges g"
  define n2 where "n2 = swap_nte e te edges g"
  define es where "es = edge_list g"
  have i1: "e_idx n1 = next_edge g" and i2: "e_idx n2 = Suc (next_edge g)"
    by (simp_all add: n1_def n2_def swap_ne_def swap_nte_def)
  have ab: "a \<noteq> b" unfolding a_def b_def by (rule table_ok_nth_neq[OF ok r1 r2 ne])
  have ain: "a \<in> set es" and bin: "b \<in> set es"
    unfolding a_def b_def es_def by (rule table_ok_nth[OF ok r1], rule table_ok_nth[OF ok r2])
  have old: "\<forall>x \<in> set es. e_idx x < next_edge g"
    using ok unfolding table_ok_def graph_ok_def es_def by (simp add: list_all_iff)
  have dist: "distinct es" using ok unfolding table_ok_def graph_ok_def es_def by blast
  have n1f: "n1 \<notin> set es" and n2f: "n2 \<notin> set es" and n12: "n1 \<noteq> n2"
    using old i1 i2 by (force, force, force)
  have bn1: "b \<noteq> n1" using bin n1f by blast
  have e': "edges' = edges[e := n1, fst te := n2]"
    and g': "edge_list g' = remove1 b (remove1 a es) @ [n1, n2]"
    and nx: "next_edge g' = Suc (Suc (next_edge g))"
    using sw unfolding swap_target_unfold[OF ne r1 r2]
    by (auto simp: n1_def n2_def a_def b_def es_def)
  have sub: "set (remove1 b (remove1 a es)) \<subseteq> set es"
    by (meson set_remove1_subset subset_trans)
  have d': "distinct (edge_list g')"
    unfolding g' using dist n1f n2f n12 sub by auto
  have ids: "list_all (\<lambda>x. e_idx x < next_edge g') (edge_list g')"
    unfolding g' nx list_all_iff using old sub i1 i2 by fastforce
  have me: "mset edges = mset es" using ok unfolding table_ok_def es_def by blast
  have m1: "mset (edges[e := n1]) = add_mset n1 (mset es - {#a#})"
    using r1 me by (simp add: mset_update a_def)
  have nthj: "edges[e := n1] ! fst te = b" using ne r2 by (simp add: b_def)
  have m2: "mset edges' = add_mset n2 (add_mset n1 (mset es - {#a#}) - {#b#})"
    unfolding e' using r2 m1 nthj by (simp add: mset_update)
  have m3: "mset (edge_list g') = add_mset n2 (add_mset n1 (mset es - {#a#} - {#b#}))"
    unfolding g' by simp
  have "mset edges' = mset (edge_list g')"
    unfolding m2 m3 using bn1 by simp
  then show ?thesis unfolding table_ok_def graph_ok_def using d' ids by blast
qed

lemma mset_remove2:
  assumes "a \<in> set xs" "b \<in> set xs" "a \<noteq> b"
  shows "add_mset a (add_mset b (mset (remove1 b (remove1 a xs)))) = mset xs"
proof -
  have b: "b \<in> set (remove1 a xs)" using assms by simp
  have "add_mset b (mset (remove1 b (remove1 a xs))) = mset (remove1 a xs)"
    using b by (metis set_mset_mset insert_DiffM mset_remove1)
  moreover have "add_mset a (mset (remove1 a xs)) = mset xs"
    using assms(1) by (metis set_mset_mset insert_DiffM mset_remove1)
  ultimately show ?thesis by simp
qed

text \<open>
  Claim C8. For a slot \<open>e\<close> and an EdgeRef \<open>te\<close> within the table, the parallel-edge check
  returns true exactly when the source of \<open>edges[e]\<close> is adjacent to the target of \<open>te\<close>
  or the source of \<open>te\<close> is adjacent to the target of \<open>edges[e]\<close>, adjacency being read
  in the graph as it is passed, before any swap.
\<close>

theorem parallel_check_target_iff:
  assumes "e < length edges" and "fst te < length edges"
  shows "parallel_check_target e te edges g =
           Some (is_adjacent (source (edges ! e) g) (target_ep te edges g) g \<or>
                 is_adjacent (source_ep te edges g) (target (edges ! e) g) g)"
  using assms by (simp add: parallel_check_target_def Let_def)

text \<open>
  Claim C10. \<open>swap_target e te\<close> writes the table at the slots \<open>e\<close> and \<open>fst te\<close> only and
  changes the graph only by replacing the two edges stored there: every other slot keeps
  its descriptor, which stays an edge of the graph, the two old descriptors leave the
  graph and the two new ones enter it; with \<open>e = fst te\<close> the table and the graph are
  returned as they were.
\<close>

theorem swap_target_frame:
  assumes ok: "table_ok g edges" and sw: "swap_target e te edges g = Some (edges', g')"
  shows "(e = fst te \<longrightarrow> edges' = edges \<and> g' = g) \<and>
         length edges' = length edges \<and>
         directed g' = directed g \<and> num_vertices g' = num_vertices g \<and>
         (\<forall>j < length edges. j \<noteq> e \<and> j \<noteq> fst te \<longrightarrow>
             edges' ! j = edges ! j \<and> edges ! j \<in> set (edge_list g) \<and> edges ! j \<in> set (edge_list g')) \<and>
         (e \<noteq> fst te \<longrightarrow>
             mset (edge_list g') + {#edges ! e, edges ! fst te#}
               = mset (edge_list g) + {#edges' ! e, edges' ! fst te#})"
proof (cases "e = fst te")
  case True
  then show ?thesis using sw ok table_ok_nth[OF ok] by (simp add: swap_target_def)
next
  case False
  have r: "e < length edges" "fst te < length edges"
    using sw False by (auto simp: swap_target_def split: if_splits)
  define a where "a = edges ! e"
  define b where "b = edges ! fst te"
  define n1 where "n1 = swap_ne e te edges g"
  define n2 where "n2 = swap_nte e te edges g"
  have ab: "a \<noteq> b" unfolding a_def b_def by (rule table_ok_nth_neq[OF ok r False])
  have ain: "a \<in> set (edge_list g)" and bin: "b \<in> set (edge_list g)"
    unfolding a_def b_def by (rule table_ok_nth[OF ok r(1)], rule table_ok_nth[OF ok r(2)])
  have e': "edges' = edges[e := n1, fst te := n2]"
    and g': "edge_list g' = remove1 b (remove1 a (edge_list g)) @ [n1, n2]"
    and d: "directed g' = directed g" and nv: "num_vertices g' = num_vertices g"
    using sw unfolding swap_target_unfold[OF False r]
    by (auto simp: n1_def n2_def a_def b_def)
  have len: "length edges' = length edges" by (simp add: e')
  have nth1: "edges' ! e = n1" and nth2: "edges' ! fst te = n2"
    using r False by (simp_all add: e')
  have others: "\<forall>j < length edges. j \<noteq> e \<and> j \<noteq> fst te \<longrightarrow>
             edges' ! j = edges ! j \<and> edges ! j \<in> set (edge_list g) \<and> edges ! j \<in> set (edge_list g')"
  proof (intro allI impI)
    fix j assume j: "j < length edges" and jn: "j \<noteq> e \<and> j \<noteq> fst te"
    have 1: "edges' ! j = edges ! j" using jn by (simp add: e')
    have 2: "edges ! j \<in> set (edge_list g)" by (rule table_ok_nth[OF ok j])
    have "edges ! j \<noteq> a" "edges ! j \<noteq> b"
      unfolding a_def b_def using table_ok_nth_neq[OF ok j r(1)] table_ok_nth_neq[OF ok j r(2)] jn
      by blast+
    then have 3: "edges ! j \<in> set (edge_list g')" using 2 by (simp add: g')
    show "edges' ! j = edges ! j \<and> edges ! j \<in> set (edge_list g) \<and> edges ! j \<in> set (edge_list g')"
      using 1 2 3 by blast
  qed
  define R where "R = remove1 b (remove1 a (edge_list g))"
  have R: "add_mset a (add_mset b (mset R)) = mset (edge_list g)"
    unfolding R_def by (rule mset_remove2[OF ain bin ab])
  have "mset (edge_list g') = mset R + {#n1, n2#}" by (simp add: g' R_def)
  then have ms: "mset (edge_list g') + {#a, b#} = mset (edge_list g) + {#n1, n2#}"
    using R by (simp add: add_mset_commute)
  show ?thesis using False len d nv others ms
    unfolding nth1 nth2 a_def[symmetric] b_def[symmetric] by blast
qed

section \<open>Properties of the edge-pair framework\<close>

definition same_degrees :: "graph \<Rightarrow> graph \<Rightarrow> bool" where
  "same_degrees g g' =
     (\<forall>v. in_degree v g' = in_degree v g \<and> out_degree v g' = out_degree v g \<and>
          in_degreeS v g' = in_degreeS v g)"

lemma rewire_base_accepted:
  assumes "rewire_base gte upd st0 ei self_loops parallel_edges = Some (True, st')"
  shows "\<exists>et st st1 st2 edges' g' st3.
           gte st0 ei = Some (et, st) \<and> ei < length (s_edges st) \<and> fst et < length (s_edges st) \<and>
           ei \<noteq> fst et \<and>
           upd ei False st = Some st1 \<and> upd (fst et) False st1 = Some st2 \<and>
           swap_target ei et (s_edges st2) (s_g st2) = Some (edges', g') \<and>
           upd ei True (st2\<lparr>s_g := g', s_edges := edges'\<rparr>) = Some st3 \<and>
           upd (fst et) True st3 = Some st'"
  using assms unfolding rewire_base_def
  by (auto split: option.splits if_splits prod.splits)

lemma rewire_base_rejected:
  assumes "rewire_base gte upd st0 ei self_loops parallel_edges = Some (False, st')"
  shows "\<exists>et. gte st0 ei = Some (et, st')"
  using assms unfolding rewire_base_def
  by (auto split: option.splits if_splits prod.splits)

lemma rewire_base_accept_swap:
  assumes gf: "\<And>st ei et st1. gte st ei = Some (et, st1) \<Longrightarrow> s_g st1 = s_g st \<and> s_edges st1 = s_edges st"
    and uf: "\<And>i b st st1. upd i b st = Some st1 \<Longrightarrow> s_g st1 = s_g st \<and> s_edges st1 = s_edges st"
    and acc: "rewire_base gte upd st0 ei self_loops parallel_edges = Some (True, st')"
  shows "\<exists>et st. gte st0 ei = Some (et, st) \<and> ei \<noteq> fst et \<and>
           ei < length (s_edges st0) \<and> fst et < length (s_edges st0) \<and>
           swap_target ei et (s_edges st0) (s_g st0) = Some (s_edges st', s_g st')"
proof -
  from rewire_base_accepted[OF acc] obtain et st st1 st2 edges' g' st3 where
    g: "gte st0 ei = Some (et, st)" and r: "ei < length (s_edges st)" "fst et < length (s_edges st)"
    and ne: "ei \<noteq> fst et"
    and u1: "upd ei False st = Some st1" and u2: "upd (fst et) False st1 = Some st2"
    and sw: "swap_target ei et (s_edges st2) (s_g st2) = Some (edges', g')"
    and u3: "upd ei True (st2\<lparr>s_g := g', s_edges := edges'\<rparr>) = Some st3"
    and u4: "upd (fst et) True st3 = Some st'"
    by blast
  have e0: "s_g st = s_g st0" "s_edges st = s_edges st0" using gf[OF g] by simp_all
  have e1: "s_g st1 = s_g st" "s_edges st1 = s_edges st" using uf[OF u1] by simp_all
  have e2: "s_g st2 = s_g st1" "s_edges st2 = s_edges st1" using uf[OF u2] by simp_all
  have e3: "s_g st3 = g'" "s_edges st3 = edges'" using uf[OF u3] by simp_all
  have e4: "s_g st' = s_g st3" "s_edges st' = s_edges st3" using uf[OF u4] by simp_all
  have "swap_target ei et (s_edges st0) (s_g st0) = Some (s_edges st', s_g st')"
    using sw by (simp add: e0 e1 e2 e3 e4)
  then show ?thesis using g ne r e0 by auto
qed

lemma rewire_base_reject_frame:
  assumes gf: "\<And>st ei et st1. gte st ei = Some (et, st1) \<Longrightarrow> s_g st1 = s_g st \<and> s_edges st1 = s_edges st"
    and rej: "rewire_base gte upd st0 ei self_loops parallel_edges = Some (False, st')"
  shows "s_g st' = s_g st0 \<and> s_edges st' = s_edges st0"
  using rewire_base_rejected[OF rej] gf by blast

lemma swap_same_degrees:
  assumes ok: "table_ok g edges"
    and ne: "e \<noteq> fst te" and r1: "e < length edges" and r2: "fst te < length edges"
    and dir: "directed g \<longrightarrow> \<not> snd te"
    and sw: "swap_target e te edges g = Some (edges', g')"
  shows "same_degrees g g'"
proof -
  have d: "directed g' = directed g"
    using sw unfolding swap_target_unfold[OF ne r1 r2] by auto
  show ?thesis
    unfolding same_degrees_def in_degreeS_def d
    using swap_target_degrees[OF ok ne r1 r2 dir sw] by simp
qed

text \<open>The hooks of the four strategies leave the graph and the edge table alone.\<close>

lemma random_gte_frame:
  assumes "random_get_target_edge st ei = Some (et, st1)"
  shows "s_g st1 = s_g st \<and> s_edges st1 = s_edges st \<and> (directed (s_g st) \<longrightarrow> \<not> snd et)"
  using assms unfolding random_get_target_edge_def
  by (auto split: if_splits prod.splits)

lemma random_upd_frame:
  assumes "random_update_edge i b st = Some st1"
  shows "s_g st1 = s_g st \<and> s_edges st1 = s_edges st"
  using assms by (simp add: random_update_edge_def)

lemma correlated_gte_frame:
  assumes "correlated_get_target_edge st ei = Some (et, st1)"
  shows "s_g st1 = s_g st \<and> s_edges st1 = s_edges st \<and> edges_by_target st1 = edges_by_target st"
  using assms unfolding correlated_get_target_edge_def
  by (auto simp: Let_def split: if_splits prod.splits)

lemma correlated_upd_frame:
  assumes "correlated_update_edge i b st = Some st1"
  shows "s_g st1 = s_g st \<and> s_edges st1 = s_edges st"
  using assms by (simp add: correlated_update_edge_def)

lemma accept_step_cases:
  "fst (accept_step fp ei ep p_i p_f r) = ep \<or> fst (accept_step fp ei ep p_i p_f r) = (ei, False)"
  by (simp add: accept_step_def Let_def split: prod.splits)

lemma probabilistic_get_prob_frame:
  assumes "probabilistic_get_prob st s t = (p, st1)"
  shows "s_g st1 = s_g st \<and> s_edges st1 = s_edges st \<and> s_rng st1 = s_rng st \<and>
         p_blockdeg st1 = p_blockdeg st \<and> p_corr_prob st1 = p_corr_prob st"
  using assms unfolding probabilistic_get_prob_def
  by (auto split: if_splits prod.splits)

lemma accept_step_res:
  assumes "accept_step fp ei ep p_i p_f r = (res, r')"
  shows "res = ep \<or> res = (ei, False)"
  using accept_step_cases[of fp ei ep p_i p_f r] assms by simp

lemma probabilistic_gte_frame:
  assumes "probabilistic_get_target_edge fp st ei = Some (et, st1)"
  shows "s_g st1 = s_g st \<and> s_edges st1 = s_edges st \<and> (directed (s_g st) \<longrightarrow> \<not> snd et)"
  using assms unfolding probabilistic_get_target_edge_def Let_def
  by (auto split: if_splits prod.splits
        dest!: probabilistic_get_prob_frame accept_step_res)

lemma probabilistic_upd_frame:
  assumes "probabilistic_update_edge i b st = Some st1"
  shows "s_g st1 = s_g st \<and> s_edges st1 = s_edges st"
  using assms by (simp add: probabilistic_update_edge_def)

lemma alias_get_prob_frame:
  assumes "alias_get_prob st s t = (p, st1)"
  shows "s_g st1 = s_g st \<and> s_edges st1 = s_edges st \<and> s_rng st1 = s_rng st \<and>
         a_blockdeg st1 = a_blockdeg st \<and> a_in_edges st1 = a_in_edges st \<and>
         a_out_edges st1 = a_out_edges st \<and> a_in_pos st1 = a_in_pos st \<and>
         a_out_pos st1 = a_out_pos st \<and> a_sampler st1 = a_sampler st"
  using assms unfolding alias_get_prob_def
  by (auto split: prod.splits)

lemma alias_candidate_unflipped:
  assumes "alias_candidate st nt r = Some (ep, r')"
  shows "directed (s_g st) \<longrightarrow> \<not> snd ep"
  using assms unfolding alias_candidate_def Let_def
  by (auto split: if_splits prod.splits)

lemma alias_gte_frame:
  assumes "alias_get_target_edge fp st ei = Some (et, st1)"
  shows "s_g st1 = s_g st \<and> s_edges st1 = s_edges st \<and> (directed (s_g st) \<longrightarrow> \<not> snd et) \<and>
         a_blockdeg st1 = a_blockdeg st \<and> a_in_edges st1 = a_in_edges st \<and>
         a_out_edges st1 = a_out_edges st \<and> a_in_pos st1 = a_in_pos st \<and>
         a_out_pos st1 = a_out_pos st"
  using assms unfolding alias_get_target_edge_def Let_def
  by (auto split: if_splits prod.splits option.splits
        dest!: alias_get_prob_frame accept_step_res alias_candidate_unflipped)

lemma alias_push_frame:
  "s_g (alias_push ei st) = s_g st \<and> s_edges (alias_push ei st) = s_edges st \<and>
   s_rng (alias_push ei st) = s_rng st \<and> a_blockdeg (alias_push ei st) = a_blockdeg st"
  by (simp add: alias_push_def Let_def)

lemma alias_upd_frame:
  assumes "alias_update_edge i b st = Some st1"
  shows "s_g st1 = s_g st \<and> s_edges st1 = s_edges st"
  using assms unfolding alias_update_edge_def Let_def
  by (auto simp: alias_push_frame split: if_splits)

definition correlated_ok :: "correlated_state \<Rightarrow> bool" where
  "correlated_ok st =
     (table_ok (s_g st) (s_edges st) \<and>
      (\<forall>b. \<forall>r \<in> set (edges_by_target st b).
          fst r < length (s_edges st) \<and> (directed (s_g st) \<longrightarrow> \<not> snd r) \<and>
          DegreeBlock (target_ep r (s_edges st) (s_g st)) (s_g st) = b))"

lemma correlated_gte_bucket:
  assumes "correlated_get_target_edge st ei = Some (et, st1)"
  shows "ei < length (s_edges st) \<and>
         et \<in> set (edges_by_target st (DegreeBlock (target (s_edges st ! ei) (s_g st)) (s_g st)))"
proof -
  let ?b = "DegreeBlock (target (s_edges st ! ei) (s_g st)) (s_g st)"
  let ?el = "edges_by_target st ?b"
  have r: "ei < length (s_edges st)" and ne: "?el \<noteq> []"
    using assms unfolding correlated_get_target_edge_def Let_def DegreeBlock_def
    by (auto split: if_splits)
  obtain i r1 where u: "uniform_int 0 (length ?el - 1) (s_rng st) = (i, r1)"
    by (cases "uniform_int 0 (length ?el - 1) (s_rng st)")
  have "i = 0 + fst (rng_next (s_rng st)) mod (length ?el - 1 - 0 + 1)"
    using u unfolding uniform_int_def by (auto split: prod.splits)
  then have "i < length ?el" using ne by (simp add: Suc_pred')
  moreover have "et = ?el ! i"
    using assms r ne u unfolding correlated_get_target_edge_def Let_def DegreeBlock_def
    by (auto split: if_splits)
  ultimately show ?thesis using r by simp
qed

lemma correlated_gte_unflipped:
  assumes ok: "correlated_ok st" and g: "correlated_get_target_edge st ei = Some (et, st1)"
  shows "directed (s_g st) \<longrightarrow> \<not> snd et"
  using ok correlated_gte_bucket[OF g] unfolding correlated_ok_def by blast

text \<open>
  Claim C1. For the four degree-preserving strategies (Random, Correlated,
  Probabilistic, Alias): whenever \<^verbatim>\<open>RewireStrategyBase::operator()\<close> returns true, the
  in-degree and the out-degree of every vertex are the same in the graph after the
  move as in the graph before it, in a directed and in an undirected graph. The edge
  table is the one the driver keeps (\<open>table_ok\<close>), and the buckets of the Correlated
  strategy are those its constructor built (\<open>correlated_ok\<close>).
\<close>

theorem accepted_move_preserves_degrees:
  "(table_ok (s_g rst) (s_edges rst) \<and>
      random_rewire rst ei self_loops parallel_edges = Some (True, rst')
        \<longrightarrow> same_degrees (s_g rst) (s_g rst')) \<and>
   (correlated_ok cst \<and>
      correlated_rewire cst ei self_loops parallel_edges = Some (True, cst')
        \<longrightarrow> same_degrees (s_g cst) (s_g cst')) \<and>
   (table_ok (s_g pst) (s_edges pst) \<and>
      probabilistic_rewire fp pst ei self_loops parallel_edges = Some (True, pst')
        \<longrightarrow> same_degrees (s_g pst) (s_g pst')) \<and>
   (table_ok (s_g ast) (s_edges ast) \<and>
      alias_rewire fp ast ei self_loops parallel_edges = Some (True, ast')
        \<longrightarrow> same_degrees (s_g ast) (s_g ast'))"
proof (intro conjI impI)
  assume a: "table_ok (s_g rst) (s_edges rst) \<and>
      random_rewire rst ei self_loops parallel_edges = Some (True, rst')"
  then have ok: "table_ok (s_g rst) (s_edges rst)"
    and acc: "rewire_base random_get_target_edge random_update_edge rst ei self_loops parallel_edges
                = Some (True, rst')"
    by (simp_all add: random_rewire_def)
  from rewire_base_accept_swap[OF _ _ acc] random_gte_frame random_upd_frame
  obtain et st where g: "random_get_target_edge rst ei = Some (et, st)"
    and ne: "ei \<noteq> fst et" and r: "ei < length (s_edges rst)" "fst et < length (s_edges rst)"
    and sw: "swap_target ei et (s_edges rst) (s_g rst) = Some (s_edges rst', s_g rst')"
    by blast
  have d: "directed (s_g rst) \<longrightarrow> \<not> snd et" using random_gte_frame[OF g] by blast
  show "same_degrees (s_g rst) (s_g rst')" by (rule swap_same_degrees[OF ok ne r d sw])
next
  assume a: "correlated_ok cst \<and>
      correlated_rewire cst ei self_loops parallel_edges = Some (True, cst')"
  then have cok: "correlated_ok cst"
    and acc: "rewire_base correlated_get_target_edge correlated_update_edge cst ei self_loops
                parallel_edges = Some (True, cst')"
    by (simp_all add: correlated_rewire_def)
  have ok: "table_ok (s_g cst) (s_edges cst)" using cok unfolding correlated_ok_def by blast
  from rewire_base_accept_swap[OF _ _ acc] correlated_gte_frame correlated_upd_frame
  obtain et st where g: "correlated_get_target_edge cst ei = Some (et, st)"
    and ne: "ei \<noteq> fst et" and r: "ei < length (s_edges cst)" "fst et < length (s_edges cst)"
    and sw: "swap_target ei et (s_edges cst) (s_g cst) = Some (s_edges cst', s_g cst')"
    by blast
  have d: "directed (s_g cst) \<longrightarrow> \<not> snd et" by (rule correlated_gte_unflipped[OF cok g])
  show "same_degrees (s_g cst) (s_g cst')" by (rule swap_same_degrees[OF ok ne r d sw])
next
  assume a: "table_ok (s_g pst) (s_edges pst) \<and>
      probabilistic_rewire fp pst ei self_loops parallel_edges = Some (True, pst')"
  then have ok: "table_ok (s_g pst) (s_edges pst)"
    and acc: "rewire_base (probabilistic_get_target_edge fp) probabilistic_update_edge pst ei
                self_loops parallel_edges = Some (True, pst')"
    by (simp_all add: probabilistic_rewire_def)
  from rewire_base_accept_swap[OF _ _ acc] probabilistic_gte_frame probabilistic_upd_frame
  obtain et st where g: "probabilistic_get_target_edge fp pst ei = Some (et, st)"
    and ne: "ei \<noteq> fst et" and r: "ei < length (s_edges pst)" "fst et < length (s_edges pst)"
    and sw: "swap_target ei et (s_edges pst) (s_g pst) = Some (s_edges pst', s_g pst')"
    by blast
  have d: "directed (s_g pst) \<longrightarrow> \<not> snd et" using probabilistic_gte_frame[OF g] by blast
  show "same_degrees (s_g pst) (s_g pst')" by (rule swap_same_degrees[OF ok ne r d sw])
next
  assume a: "table_ok (s_g ast) (s_edges ast) \<and>
      alias_rewire fp ast ei self_loops parallel_edges = Some (True, ast')"
  then have ok: "table_ok (s_g ast) (s_edges ast)"
    and acc: "rewire_base (alias_get_target_edge fp) alias_update_edge ast ei
                self_loops parallel_edges = Some (True, ast')"
    by (simp_all add: alias_rewire_def)
  from rewire_base_accept_swap[OF _ _ acc] alias_gte_frame alias_upd_frame
  obtain et st where g: "alias_get_target_edge fp ast ei = Some (et, st)"
    and ne: "ei \<noteq> fst et" and r: "ei < length (s_edges ast)" "fst et < length (s_edges ast)"
    and sw: "swap_target ei et (s_edges ast) (s_g ast) = Some (s_edges ast', s_g ast')"
    by blast
  have d: "directed (s_g ast) \<longrightarrow> \<not> snd et" using alias_gte_frame[OF g] by blast
  show "same_degrees (s_g ast) (s_g ast')" by (rule swap_same_degrees[OF ok ne r d sw])
qed

lemma DegreeBlock_same_degrees:
  assumes "same_degrees g g'"
  shows "DegreeBlock v g' = DegreeBlock v g"
  using assms unfolding same_degrees_def DegreeBlock_def by simp

lemma swap_target_ep_blocks:
  fixes bd :: "'b blockdeg"
  assumes ne: "e \<noteq> fst te" and r1: "e < length edges" and r2: "fst te < length edges"
    and sw: "swap_target e te edges g = Some (edges', g')"
    and inv: "\<And>v. bd v g' = bd v g"
    and same: "bd (target_ep te edges g) g = bd (target (edges ! e) g) g"
    and i: "i < length edges"
  shows "bd (target_ep (i, f) edges' g') g' = bd (target_ep (i, f) edges g) g"
proof -
  have e': "edges' = edges[e := swap_ne e te edges g, fst te := swap_nte e te edges g]"
    using sw unfolding swap_target_unfold[OF ne r1 r2] by simp
  have n1: "edges' ! e = swap_ne e te edges g" using ne r1 by (simp add: e')
  have n2: "edges' ! fst te = swap_nte e te edges g" using r2 by (simp add: e')
  consider (a) "i = e" | (b) "i = fst te" | (c) "i \<noteq> e" "i \<noteq> fst te" by blast
  then have "bd (target_ep (i, f) edges' g') g = bd (target_ep (i, f) edges g) g"
  proof cases
    case a
    show ?thesis using same
      by (simp add: a n1 target_ep_def source_def target_def swap_ne_def)
  next
    case b
    show ?thesis using same
      by (cases "snd te")
         (simp_all add: b n2 target_ep_def source_ep_def source_def target_def swap_nte_def)
  next
    case c
    then have "edges' ! i = edges ! i" by (simp add: e')
    then show ?thesis by (simp add: target_ep_def source_def target_def)
  qed
  then show ?thesis by (simp add: inv)
qed

definition edge_blocks :: "'b blockdeg \<Rightarrow> graph \<Rightarrow> ('b \<times> 'b) multiset" where
  "edge_blocks bd g =
     image_mset (\<lambda>e. (bd (source e g) g, bd (target e g) g)) (mset (edge_list g))"

lemma edge_blocks_table:
  assumes "table_ok g edges"
  shows "edge_blocks bd g =
     mset (map (\<lambda>i. (bd (target_ep (i, True) edges g) g, bd (target_ep (i, False) edges g) g))
               [0..<length edges])"
proof -
  have m: "mset (edge_list g) = mset edges" using assms unfolding table_ok_def by simp
  have "map (\<lambda>i. (bd (target_ep (i, True) edges g) g, bd (target_ep (i, False) edges g) g))
               [0..<length edges]
        = map (\<lambda>e. (bd (source e g) g, bd (target e g) g)) edges"
    by (rule nth_equalityI) (simp_all add: target_ep_def)
  then show ?thesis unfolding edge_blocks_def m by simp
qed

lemma swap_target_shape:
  assumes ne: "e \<noteq> fst te" and r1: "e < length edges" and r2: "fst te < length edges"
    and sw: "swap_target e te edges g = Some (edges', g')"
  shows "length edges' = length edges \<and> directed g' = directed g \<and>
         num_vertices g' = num_vertices g"
proof -
  have "edges' = edges[e := swap_ne e te edges g, fst te := swap_nte e te edges g]"
    and "g' = g\<lparr>edge_list := remove1 (edges ! fst te) (remove1 (edges ! e) (edge_list g))
                   @ [swap_ne e te edges g, swap_nte e te edges g],
             next_edge := Suc (Suc (next_edge g))\<rparr>"
    using sw unfolding swap_target_unfold[OF ne r1 r2] by simp_all
  then show ?thesis by simp
qed

lemma swap_edge_blocks:
  fixes bd :: "'b blockdeg"
  assumes ok: "table_ok g edges"
    and ne: "e \<noteq> fst te" and r1: "e < length edges" and r2: "fst te < length edges"
    and sw: "swap_target e te edges g = Some (edges', g')"
    and inv: "\<And>v. bd v g' = bd v g"
    and same: "bd (target_ep te edges g) g = bd (target (edges ! e) g) g"
  shows "edge_blocks bd g' = edge_blocks bd g"
proof -
  have ok': "table_ok g' edges'" by (rule swap_target_table_ok[OF ok ne r1 r2 sw])
  have len: "length edges' = length edges"
    using swap_target_shape[OF ne r1 r2 sw] by blast
  have M: "map (\<lambda>i. (bd (target_ep (i, True) edges' g') g', bd (target_ep (i, False) edges' g') g'))
            [0..<length edges]
      = map (\<lambda>i. (bd (target_ep (i, True) edges g) g, bd (target_ep (i, False) edges g) g))
            [0..<length edges]"
    by (rule map_cong[OF refl]) (simp add: swap_target_ep_blocks[OF ne r1 r2 sw inv same])
  show ?thesis
    unfolding edge_blocks_table[OF ok] edge_blocks_table[OF ok'] len
    by (rule arg_cong[OF M])
qed

lemma correlated_rewire_buckets:
  assumes "correlated_rewire cst ei self_loops parallel_edges = Some (b, cst')"
  shows "edges_by_target cst' = edges_by_target cst"
proof (cases b)
  case True
  with assms have acc: "rewire_base correlated_get_target_edge correlated_update_edge cst ei
       self_loops parallel_edges = Some (True, cst')"
    by (simp add: correlated_rewire_def)
  from rewire_base_accepted[OF acc] show ?thesis
    by (auto simp: correlated_update_edge_def dest!: correlated_gte_frame)
next
  case False
  with assms have rej: "rewire_base correlated_get_target_edge correlated_update_edge cst ei
       self_loops parallel_edges = Some (False, cst')"
    by (simp add: correlated_rewire_def)
  from rewire_base_rejected[OF rej] show ?thesis
    by (auto dest!: correlated_gte_frame)
qed

lemma correlated_accept:
  assumes cok: "correlated_ok cst"
    and acc: "correlated_rewire cst ei self_loops parallel_edges = Some (True, cst')"
  shows "correlated_ok cst' \<and> edge_blocks DegreeBlock (s_g cst') = edge_blocks DegreeBlock (s_g cst)"
proof -
  have acc': "rewire_base correlated_get_target_edge correlated_update_edge cst ei
       self_loops parallel_edges = Some (True, cst')"
    using acc by (simp add: correlated_rewire_def)
  have ok: "table_ok (s_g cst) (s_edges cst)" using cok unfolding correlated_ok_def by blast
  from rewire_base_accept_swap[OF _ _ acc'] correlated_gte_frame correlated_upd_frame
  obtain et st where g: "correlated_get_target_edge cst ei = Some (et, st)"
    and ne: "ei \<noteq> fst et" and r: "ei < length (s_edges cst)" "fst et < length (s_edges cst)"
    and sw: "swap_target ei et (s_edges cst) (s_g cst) = Some (s_edges cst', s_g cst')"
    by blast
  have d: "directed (s_g cst) \<longrightarrow> \<not> snd et" by (rule correlated_gte_unflipped[OF cok g])
  have sd: "same_degrees (s_g cst) (s_g cst')" by (rule swap_same_degrees[OF ok ne r d sw])
  have inv: "\<And>v. DegreeBlock v (s_g cst') = DegreeBlock v (s_g cst)"
    by (rule DegreeBlock_same_degrees[OF sd])
  have same: "DegreeBlock (target_ep et (s_edges cst) (s_g cst)) (s_g cst)
            = DegreeBlock (target (s_edges cst ! ei) (s_g cst)) (s_g cst)"
    using cok correlated_gte_bucket[OF g] unfolding correlated_ok_def by blast
  have eb: "edge_blocks DegreeBlock (s_g cst') = edge_blocks DegreeBlock (s_g cst)"
    by (rule swap_edge_blocks[OF ok ne r sw inv same])
  have ok': "table_ok (s_g cst') (s_edges cst')" by (rule swap_target_table_ok[OF ok ne r sw])
  have len: "length (s_edges cst') = length (s_edges cst)"
    and dir: "directed (s_g cst') = directed (s_g cst)"
    using swap_target_shape[OF ne r sw] by blast+
  have bk: "edges_by_target cst' = edges_by_target cst" by (rule correlated_rewire_buckets[OF acc])
  have "\<forall>b. \<forall>r \<in> set (edges_by_target cst' b).
          fst r < length (s_edges cst') \<and> (directed (s_g cst') \<longrightarrow> \<not> snd r) \<and>
          DegreeBlock (target_ep r (s_edges cst') (s_g cst')) (s_g cst') = b"
  proof (intro allI ballI)
    fix b x assume x: "x \<in> set (edges_by_target cst' b)"
    then have old: "fst x < length (s_edges cst)" "directed (s_g cst) \<longrightarrow> \<not> snd x"
      "DegreeBlock (target_ep x (s_edges cst) (s_g cst)) (s_g cst) = b"
      using cok unfolding correlated_ok_def bk by blast+
    have "DegreeBlock (target_ep (fst x, snd x) (s_edges cst') (s_g cst')) (s_g cst')
        = DegreeBlock (target_ep (fst x, snd x) (s_edges cst) (s_g cst)) (s_g cst)"
      by (rule swap_target_ep_blocks[OF ne r sw inv same old(1)])
    then show "fst x < length (s_edges cst') \<and> (directed (s_g cst') \<longrightarrow> \<not> snd x) \<and>
          DegreeBlock (target_ep x (s_edges cst') (s_g cst')) (s_g cst') = b"
      using old by (simp add: len dir)
  qed
  then show ?thesis using ok' eb unfolding correlated_ok_def by blast
qed

lemma correlated_reject:
  assumes cok: "correlated_ok cst"
    and rej: "correlated_rewire cst ei self_loops parallel_edges = Some (False, cst')"
  shows "correlated_ok cst' \<and> s_g cst' = s_g cst \<and> s_edges cst' = s_edges cst"
proof -
  have rej': "rewire_base correlated_get_target_edge correlated_update_edge cst ei
       self_loops parallel_edges = Some (False, cst')"
    using rej by (simp add: correlated_rewire_def)
  have fr: "s_g cst' = s_g cst \<and> s_edges cst' = s_edges cst"
    using rewire_base_reject_frame[OF _ rej'] correlated_gte_frame by blast
  have bk: "edges_by_target cst' = edges_by_target cst" by (rule correlated_rewire_buckets[OF rej])
  show ?thesis using cok fr bk unfolding correlated_ok_def by simp
qed

definition buckets_upto :: "graph \<Rightarrow> edge_t list \<Rightarrow> nat \<Rightarrow> (nat \<times> nat \<Rightarrow> edge_ref list) \<Rightarrow> bool" where
  "buckets_upto g edges n ebt =
     (\<forall>b. \<forall>r \<in> set (ebt b).
          fst r < n \<and> (directed g \<longrightarrow> \<not> snd r) \<and> DegreeBlock (target_ep r edges g) g = b)"

lemma correlated_index_edge_step:
  assumes "buckets_upto g edges n ebt"
  shows "buckets_upto g edges (Suc n) (correlated_index_edge g edges ebt n)"
  unfolding buckets_upto_def
proof (intro allI ballI)
  fix b r assume r: "r \<in> set (correlated_index_edge g edges ebt n b)"
  let ?t = "(in_degreeS (target (edges ! n) g) g, out_degree (target (edges ! n) g) g)"
  let ?s = "(in_degreeS (source (edges ! n) g) g, out_degree (source (edges ! n) g) g)"
  have cases: "r \<in> set (ebt b) \<or> (r = (n, False) \<and> b = ?t) \<or> (r = (n, True) \<and> b = ?s \<and> \<not> directed g)"
    using r unfolding correlated_index_edge_def Let_def
    by (auto split: if_splits)
  from cases show "fst r < Suc n \<and> (directed g \<longrightarrow> \<not> snd r) \<and> DegreeBlock (target_ep r edges g) g = b"
  proof (elim disjE conjE)
    assume "r \<in> set (ebt b)"
    then show ?thesis using assms unfolding buckets_upto_def by (meson less_Suc_eq)
  next
    assume "r = (n, False)" "b = ?t"
    then show ?thesis by (simp add: DegreeBlock_def target_ep_def)
  next
    assume "r = (n, True)" "b = ?s" "\<not> directed g"
    then show ?thesis by (simp add: DegreeBlock_def target_ep_def)
  qed
qed

lemma correlated_index_all:
  "buckets_upto g edges n (foldl (correlated_index_edge g edges) (\<lambda>_. []) [0..<n])"
proof (induction n)
  case 0
  show ?case by (simp add: buckets_upto_def)
next
  case (Suc n)
  show ?case using correlated_index_edge_step[OF Suc] by simp
qed

lemma CorrelatedRewireStrategy_ok:
  assumes "table_ok g edges"
  shows "correlated_ok (CorrelatedRewireStrategy g edges corr_prob blockdeg cache rng)"
  using assms correlated_index_all[of g edges "length edges"]
  unfolding correlated_ok_def CorrelatedRewireStrategy_def buckets_upto_def by simp

lemma rewire_base_table_ok:
  assumes gf: "\<And>st ei et st1. gte st ei = Some (et, st1) \<Longrightarrow> s_g st1 = s_g st \<and> s_edges st1 = s_edges st"
    and uf: "\<And>i b st st1. upd i b st = Some st1 \<Longrightarrow> s_g st1 = s_g st \<and> s_edges st1 = s_edges st"
    and ok: "table_ok (s_g st0) (s_edges st0)"
    and res: "rewire_base gte upd st0 ei self_loops parallel_edges = Some (b, st')"
  shows "table_ok (s_g st') (s_edges st')"
proof (cases b)
  case True
  have acc: "rewire_base gte upd st0 ei self_loops parallel_edges = Some (True, st')"
    using res True by simp
  from rewire_base_accept_swap[OF _ _ acc] gf uf
  obtain et where ne: "ei \<noteq> fst et" and r: "ei < length (s_edges st0)" "fst et < length (s_edges st0)"
    and sw: "swap_target ei et (s_edges st0) (s_g st0) = Some (s_edges st', s_g st')"
    by blast
  show ?thesis by (rule swap_target_table_ok[OF ok ne r sw])
next
  case False
  have rej: "rewire_base gte upd st0 ei self_loops parallel_edges = Some (False, st')"
    using res False by simp
  from rewire_base_reject_frame[OF _ rej] gf have "s_g st' = s_g st0 \<and> s_edges st' = s_edges st0" by blast
  with ok show ?thesis by simp
qed

lemma random_rewire_table_ok:
  assumes "table_ok (s_g st) (s_edges st)"
    and "random_rewire st ei self_loops parallel_edges = Some (b, st')"
  shows "table_ok (s_g st') (s_edges st')"
  using rewire_base_table_ok[OF _ _ assms(1) assms(2)[unfolded random_rewire_def]]
    random_gte_frame random_upd_frame by blast

lemma probabilistic_rewire_table_ok:
  assumes "table_ok (s_g st) (s_edges st)"
    and "probabilistic_rewire fp st ei self_loops parallel_edges = Some (b, st')"
  shows "table_ok (s_g st') (s_edges st')"
  using rewire_base_table_ok[OF _ _ assms(1) assms(2)[unfolded probabilistic_rewire_def]]
    probabilistic_gte_frame probabilistic_upd_frame by blast

lemma alias_rewire_table_ok:
  assumes "table_ok (s_g st) (s_edges st)"
    and "alias_rewire fp st ei self_loops parallel_edges = Some (b, st')"
  shows "table_ok (s_g st') (s_edges st')"
  using rewire_base_table_ok[OF _ _ assms(1) assms(2)[unfolded alias_rewire_def]]
    alias_gte_frame alias_upd_frame by blast

lemma table_ok_initial: "graph_ok g \<Longrightarrow> table_ok g (edge_list g)"
  by (simp add: table_ok_def)

section \<open>Concrete inputs\<close>

text \<open>
  The inputs the witnesses and counterexamples run on: a random source that replays a
  list of raw outputs (and 0 after it), an arithmetic of doubles without rounding, the
  constant weight 1, and small graphs.
\<close>

definition list_rng :: "nat list \<Rightarrow> rng_t" where
  "list_rng xs n = (if n < length xs then xs ! n else 0)"

definition corr_one :: "'b \<Rightarrow> 'b \<Rightarrow> double" where
  "corr_one s t = Fin 1"

fun d_mul_exact :: "double \<Rightarrow> double \<Rightarrow> double" where
  "d_mul_exact (Fin x) (Fin y) = Fin (x * y)"
| "d_mul_exact _ _ = NaN"

fun d_div_exact :: "double \<Rightarrow> double \<Rightarrow> double" where
  "d_div_exact (Fin x) (Fin y) = Fin (x / y)"
| "d_div_exact _ _ = NaN"

definition fp_exact :: fp_arith where
  "fp_exact = \<lparr>fp_mul = d_mul_exact, fp_exp_log_diff = d_div_exact,
               fp_uniform_real = (\<lambda>n. Fin (real (n mod 1000) / 1000))\<rparr>"

definition ex_g1 :: graph where
  "ex_g1 = \<lparr>directed = True, num_vertices = 2, edge_list = [Edge 0 1 0], next_edge = 1\<rparr>"

definition ex_g2 :: graph where
  "ex_g2 = \<lparr>directed = True, num_vertices = 4,
            edge_list = [Edge 0 1 0, Edge 2 3 1], next_edge = 2\<rparr>"

definition ex_g3 :: graph where
  "ex_g3 = \<lparr>directed = True, num_vertices = 4,
            edge_list = [Edge 0 1 0, Edge 2 3 1, Edge 0 3 2], next_edge = 3\<rparr>"

definition ex_u2 :: graph where
  "ex_u2 = \<lparr>directed = False, num_vertices = 4,
            edge_list = [Edge 0 1 0, Edge 2 3 1], next_edge = 2\<rparr>"

lemma rng_next_list_rng [simp]:
  "rng_next (list_rng (x # xs)) = (x, list_rng xs)"
  "rng_next (list_rng []) = (0, list_rng [])"
  by (auto simp: rng_next_def list_rng_def fun_eq_iff)

lemmas eval_defs =
  rewire_base_def uniform_int_def bernoulli_def
  source_def target_def source_ep_def target_ep_def parallel_check_target_def is_adjacent_def
  swap_target_def Let_def add_edge_def remove_edge_def
  in_degreeS_def in_degree_def out_degree_def DegreeBlock_def PropertyBlock_def
  accept_step_def d_ge_def sanitize_prob_def sanitize_trad_def isnan_def isinf_def
  probs_lookup_def cache_probs_def collect_blocks_def
  sample_def sampler_support_def fp_exact_def corr_one_def upt_rec

lemma ex_g2_ok: "table_ok ex_g2 (edge_list ex_g2)"
  by (simp add: table_ok_def graph_ok_def ex_g2_def)

lemma ex_g3_ok: "table_ok ex_g3 (edge_list ex_g3)"
  by (simp add: table_ok_def graph_ok_def ex_g3_def)

lemma ex_u2_ok: "table_ok ex_u2 (edge_list ex_u2)"
  by (simp add: table_ok_def graph_ok_def ex_u2_def)

theorem parallel_check_target_iff_witness:
  "0 < length (edge_list ex_g3) \<and> fst (1 :: nat, False) < length (edge_list ex_g3) \<and>
   parallel_check_target 0 (1, False) (edge_list ex_g3) ex_g3 = Some True \<and>
   parallel_check_target 0 (1, False) (edge_list ex_g2) ex_g2 = Some False"
  using parallel_check_target_iff[of 0 "edge_list ex_g3" "(1, False)" ex_g3]
    parallel_check_target_iff[of 0 "edge_list ex_g2" "(1, False)" ex_g2]
  by (simp add: ex_g3_def ex_g2_def is_adjacent_def source_def target_def source_ep_def target_ep_def)

lemma ex_g3_swap:
  "swap_target 0 (1, False) (edge_list ex_g3) ex_g3 =
     Some ([Edge 0 3 3, Edge 2 1 4, Edge 0 3 2],
           \<lparr>directed = True, num_vertices = 4,
            edge_list = [Edge 0 3 2, Edge 0 3 3, Edge 2 1 4], next_edge = 5\<rparr>)"
  by (simp add: ex_g3_def eval_defs)

theorem swap_target_frame_witness:
  "table_ok ex_g3 (edge_list ex_g3) \<and>
   swap_target 0 (1, False) (edge_list ex_g3) ex_g3 =
     Some ([Edge 0 3 3, Edge 2 1 4, Edge 0 3 2],
           \<lparr>directed = True, num_vertices = 4,
            edge_list = [Edge 0 3 2, Edge 0 3 3, Edge 2 1 4], next_edge = 5\<rparr>) \<and>
   [Edge 0 3 3, Edge 2 1 4, Edge 0 3 2] ! 2 = edge_list ex_g3 ! 2 \<and>
   edge_list ex_g3 ! 2 \<in> set [Edge 0 3 2, Edge 0 3 3, Edge 2 1 4] \<and>
   mset [Edge 0 3 2, Edge 0 3 3, Edge 2 1 4] + {#edge_list ex_g3 ! 0, edge_list ex_g3 ! 1#}
     = mset (edge_list ex_g3) + {#Edge 0 3 3, Edge 2 1 4#}"
  using swap_target_frame[OF ex_g3_ok ex_g3_swap] ex_g3_ok ex_g3_swap
  by (simp add: ex_g3_def)

lemma ex_random_accepts:
  "map_option fst (random_rewire
      (RandomRewireStrategy ex_g2 (edge_list ex_g2) corr_one DegreeBlock False (list_rng [0]))
      1 False False) = Some True"
  by (simp add: random_rewire_def RandomRewireStrategy_def ex_g2_def
       random_get_target_edge_def random_update_edge_def eval_defs)

lemma ex_correlated_accepts:
  "map_option fst (correlated_rewire
      (CorrelatedRewireStrategy ex_u2 (edge_list ex_u2) corr_one DegreeBlock False (list_rng [1]))
      1 False False) = Some True"
  by (simp add: correlated_rewire_def CorrelatedRewireStrategy_def ex_u2_def
       correlated_get_target_edge_def correlated_update_edge_def correlated_index_edge_def
       eval_defs)

lemma ex_probabilistic_accepts:
  "map_option fst (probabilistic_rewire fp_exact
      (ProbabilisticRewireStrategy ex_g2 (edge_list ex_g2) corr_one DegreeBlock False (list_rng [0]))
      1 False False) = Some True"
  by (simp add: probabilistic_rewire_def ProbabilisticRewireStrategy_def ex_g2_def
       probabilistic_get_target_edge_def probabilistic_update_edge_def probabilistic_get_prob_def
       eval_defs)

lemma ex_alias_accepts:
  "map_option fst (alias_rewire fp_exact
      (AliasProbabilisticRewireStrategy ex_g2 (edge_list ex_g2) corr_one DegreeBlock False
         (list_rng [0, 1]))
      0 False False) = Some True"
  by (simp add: alias_rewire_def AliasProbabilisticRewireStrategy_def ex_g2_def
       alias_get_target_edge_def alias_update_edge_def alias_candidate_def alias_get_prob_def
       alias_push_def alias_samplers_def eval_defs)

theorem accepted_move_preserves_degrees_witness:
  "table_ok ex_g2 (edge_list ex_g2) \<and>
   (\<exists>st'. random_rewire
      (RandomRewireStrategy ex_g2 (edge_list ex_g2) corr_one DegreeBlock False (list_rng [0]))
      1 False False = Some (True, st') \<and> same_degrees ex_g2 (s_g st')) \<and>
   correlated_ok
      (CorrelatedRewireStrategy ex_u2 (edge_list ex_u2) corr_one DegreeBlock False (list_rng [1])) \<and>
   (\<exists>st'. correlated_rewire
      (CorrelatedRewireStrategy ex_u2 (edge_list ex_u2) corr_one DegreeBlock False (list_rng [1]))
      1 False False = Some (True, st') \<and> same_degrees ex_u2 (s_g st')) \<and>
   (\<exists>st'. probabilistic_rewire fp_exact
      (ProbabilisticRewireStrategy ex_g2 (edge_list ex_g2) corr_one DegreeBlock False (list_rng [0]))
      1 False False = Some (True, st') \<and> same_degrees ex_g2 (s_g st')) \<and>
   (\<exists>st'. alias_rewire fp_exact
      (AliasProbabilisticRewireStrategy ex_g2 (edge_list ex_g2) corr_one DegreeBlock False
         (list_rng [0, 1]))
      0 False False = Some (True, st') \<and> same_degrees ex_g2 (s_g st'))"
proof -
  let ?r = "RandomRewireStrategy ex_g2 (edge_list ex_g2) corr_one DegreeBlock False (list_rng [0])"
  let ?c = "CorrelatedRewireStrategy ex_u2 (edge_list ex_u2) corr_one DegreeBlock False (list_rng [1])"
  let ?p = "ProbabilisticRewireStrategy ex_g2 (edge_list ex_g2) corr_one DegreeBlock False (list_rng [0])"
  let ?a = "AliasProbabilisticRewireStrategy ex_g2 (edge_list ex_g2) corr_one DegreeBlock False
         (list_rng [0, 1])"
  have gr: "s_g ?r = ex_g2" "s_edges ?r = edge_list ex_g2"
    by (simp_all add: RandomRewireStrategy_def)
  have gc: "s_g ?c = ex_u2" by (simp add: CorrelatedRewireStrategy_def)
  have gp: "s_g ?p = ex_g2" "s_edges ?p = edge_list ex_g2"
    by (simp_all add: ProbabilisticRewireStrategy_def)
  have ga: "s_g ?a = ex_g2" "s_edges ?a = edge_list ex_g2"
    by (simp_all add: AliasProbabilisticRewireStrategy_def ex_g2_def alias_push_def Let_def upt_rec)
  have cok: "correlated_ok ?c" by (rule CorrelatedRewireStrategy_ok[OF ex_u2_ok])
  obtain r' where r: "random_rewire ?r 1 False False = Some (True, r')"
    using ex_random_accepts by (cases "random_rewire ?r 1 False False") auto
  obtain c' where c: "correlated_rewire ?c 1 False False = Some (True, c')"
    using ex_correlated_accepts by (cases "correlated_rewire ?c 1 False False") auto
  obtain p' where p: "probabilistic_rewire fp_exact ?p 1 False False = Some (True, p')"
    using ex_probabilistic_accepts by (cases "probabilistic_rewire fp_exact ?p 1 False False") auto
  obtain a' where a: "alias_rewire fp_exact ?a 0 False False = Some (True, a')"
    using ex_alias_accepts by (cases "alias_rewire fp_exact ?a 0 False False") auto
  note inst1 = accepted_move_preserves_degrees[where rst="?r" and ei=1 and self_loops=False
      and parallel_edges=False and rst'=r' and cst="?c" and cst'=c' and fp=fp_exact
      and pst="?p" and pst'=p' and ast="?a" and ast'=a']
  note inst0 = accepted_move_preserves_degrees[where rst="?r" and ei=0 and self_loops=False
      and parallel_edges=False and rst'=r' and cst="?c" and cst'=c' and fp=fp_exact
      and pst="?p" and pst'=p' and ast="?a" and ast'=a']
  have sr: "same_degrees ex_g2 (s_g r')" using inst1 ex_g2_ok r unfolding gr by blast
  have sc: "same_degrees ex_u2 (s_g c')" using inst1 cok c unfolding gc by blast
  have sp: "same_degrees ex_g2 (s_g p')" using inst1 ex_g2_ok p unfolding gp by blast
  have sa: "same_degrees ex_g2 (s_g a')" using inst0 ex_g2_ok a unfolding ga by blast
  show ?thesis using ex_g2_ok cok r c p a sr sc sp sa by blast
qed

lemma erdos_reject_frame:
  assumes "erdos_rewire st ei self_loops parallel_edges = Some (False, st')"
  shows "s_g st' = s_g st \<and> s_edges st' = s_edges st"
  using assms unfolding erdos_rewire_def Let_def
  by (auto split: if_splits option.splits prod.splits)

lemma trad_reject_frame:
  assumes "trad_rewire st ei self_loops parallel_edges = Some (False, st')"
  shows "s_g st' = s_g st \<and> s_edges st' = s_edges st"
  using assms unfolding trad_rewire_def Let_def
  by (auto split: if_splits option.splits prod.splits)

text \<open>
  Claim C9. For each of the six strategies, a proposal that returns false leaves the
  graph and the edge table exactly as they were: every check that rejects comes before
  the first removal, addition or write to the table.
\<close>

theorem rejected_move_changes_nothing:
  "(erdos_rewire est ei self_loops parallel_edges = Some (False, est')
      \<longrightarrow> s_g est' = s_g est \<and> s_edges est' = s_edges est) \<and>
   (random_rewire rst ei self_loops parallel_edges = Some (False, rst')
      \<longrightarrow> s_g rst' = s_g rst \<and> s_edges rst' = s_edges rst) \<and>
   (correlated_rewire cst ei self_loops parallel_edges = Some (False, cst')
      \<longrightarrow> s_g cst' = s_g cst \<and> s_edges cst' = s_edges cst) \<and>
   (probabilistic_rewire fp pst ei self_loops parallel_edges = Some (False, pst')
      \<longrightarrow> s_g pst' = s_g pst \<and> s_edges pst' = s_edges pst) \<and>
   (alias_rewire fp ast ei self_loops parallel_edges = Some (False, ast')
      \<longrightarrow> s_g ast' = s_g ast \<and> s_edges ast' = s_edges ast) \<and>
   (trad_rewire tst ei self_loops parallel_edges = Some (False, tst')
      \<longrightarrow> s_g tst' = s_g tst \<and> s_edges tst' = s_edges tst)"
proof (intro conjI impI)
  assume "erdos_rewire est ei self_loops parallel_edges = Some (False, est')"
  from erdos_reject_frame[OF this] show "s_g est' = s_g est" "s_edges est' = s_edges est"
    by simp_all
next
  assume "random_rewire rst ei self_loops parallel_edges = Some (False, rst')"
  then have r: "rewire_base random_get_target_edge random_update_edge rst ei self_loops
                  parallel_edges = Some (False, rst')"
    by (simp add: random_rewire_def)
  from rewire_base_reject_frame[OF _ r] random_gte_frame
  show "s_g rst' = s_g rst" "s_edges rst' = s_edges rst" by blast+
next
  assume "correlated_rewire cst ei self_loops parallel_edges = Some (False, cst')"
  then have r: "rewire_base correlated_get_target_edge correlated_update_edge cst ei self_loops
                  parallel_edges = Some (False, cst')"
    by (simp add: correlated_rewire_def)
  from rewire_base_reject_frame[OF _ r] correlated_gte_frame
  show "s_g cst' = s_g cst" "s_edges cst' = s_edges cst" by blast+
next
  assume "probabilistic_rewire fp pst ei self_loops parallel_edges = Some (False, pst')"
  then have r: "rewire_base (probabilistic_get_target_edge fp) probabilistic_update_edge pst ei
                  self_loops parallel_edges = Some (False, pst')"
    by (simp add: probabilistic_rewire_def)
  from rewire_base_reject_frame[OF _ r] probabilistic_gte_frame
  show "s_g pst' = s_g pst" "s_edges pst' = s_edges pst" by blast+
next
  assume "alias_rewire fp ast ei self_loops parallel_edges = Some (False, ast')"
  then have r: "rewire_base (alias_get_target_edge fp) alias_update_edge ast ei
                  self_loops parallel_edges = Some (False, ast')"
    by (simp add: alias_rewire_def)
  from rewire_base_reject_frame[OF _ r] alias_gte_frame
  show "s_g ast' = s_g ast" "s_edges ast' = s_edges ast" by blast+
next
  assume "trad_rewire tst ei self_loops parallel_edges = Some (False, tst')"
  from trad_reject_frame[OF this] show "s_g tst' = s_g tst" "s_edges tst' = s_edges tst"
    by simp_all
qed

lemma ex_erdos_rejects:
  "map_option fst (erdos_rewire
      (ErdosRewireStrategy ex_g2 (edge_list ex_g2) corr_one DegreeBlock False (list_rng [0, 1]))
      0 False False) = Some False"
  by (simp add: erdos_rewire_def ErdosRewireStrategy_def ex_g2_def erdos_draw.simps eval_defs)

lemma ex_random_rejects:
  "map_option fst (random_rewire
      (RandomRewireStrategy ex_g2 (edge_list ex_g2) corr_one DegreeBlock False (list_rng [0]))
      0 True True) = Some False"
  by (simp add: random_rewire_def RandomRewireStrategy_def ex_g2_def
       random_get_target_edge_def random_update_edge_def eval_defs)

lemma ex_correlated_rejects:
  "map_option fst (correlated_rewire
      (CorrelatedRewireStrategy ex_g3 (edge_list ex_g3) corr_one DegreeBlock False (list_rng [1]))
      1 False False) = Some False"
  by (simp add: correlated_rewire_def CorrelatedRewireStrategy_def ex_g3_def
       correlated_get_target_edge_def correlated_update_edge_def correlated_index_edge_def
       eval_defs)

lemma ex_probabilistic_rejects:
  "map_option fst (probabilistic_rewire fp_exact
      (ProbabilisticRewireStrategy ex_g3 (edge_list ex_g3) corr_one DegreeBlock True (list_rng [2]))
      1 True False) = Some False"
  by (simp add: probabilistic_rewire_def ProbabilisticRewireStrategy_def ex_g3_def
       probabilistic_get_target_edge_def probabilistic_update_edge_def probabilistic_get_prob_def
       eval_defs)

lemma ex_alias_rejects:
  "map_option fst (alias_rewire fp_exact
      (AliasProbabilisticRewireStrategy ex_g2 (edge_list ex_g2) corr_one DegreeBlock False
         (list_rng [0, 1]))
      1 False False) = Some False"
  by (simp add: alias_rewire_def AliasProbabilisticRewireStrategy_def ex_g2_def
       alias_get_target_edge_def alias_update_edge_def alias_candidate_def alias_get_prob_def
       alias_push_def alias_samplers_def eval_defs)

lemma ex_trad_rejects:
  "map_option fst (trad_rewire
      (TradBlockRewireStrategy ex_g2 (edge_list ex_g2) corr_one DegreeBlock False
         (list_rng [1, 1, 1]))
      0 False False) = Some False"
  by (simp add: trad_rewire_def TradBlockRewireStrategy_def ex_g2_def trad_vertices_def
       vertices_of_def eval_defs)

theorem rejected_move_changes_nothing_witness:
  "(\<exists>st'. erdos_rewire
      (ErdosRewireStrategy ex_g2 (edge_list ex_g2) corr_one DegreeBlock False (list_rng [0, 1]))
      0 False False = Some (False, st') \<and> s_g st' = ex_g2 \<and> s_edges st' = edge_list ex_g2) \<and>
   (\<exists>st'. random_rewire
      (RandomRewireStrategy ex_g2 (edge_list ex_g2) corr_one DegreeBlock False (list_rng [0]))
      0 True True = Some (False, st') \<and> s_g st' = ex_g2 \<and> s_edges st' = edge_list ex_g2) \<and>
   (\<exists>st'. correlated_rewire
      (CorrelatedRewireStrategy ex_g3 (edge_list ex_g3) corr_one DegreeBlock False (list_rng [1]))
      1 False False = Some (False, st') \<and> s_g st' = ex_g3 \<and> s_edges st' = edge_list ex_g3) \<and>
   (\<exists>st'. probabilistic_rewire fp_exact
      (ProbabilisticRewireStrategy ex_g3 (edge_list ex_g3) corr_one DegreeBlock True (list_rng [2]))
      1 True False = Some (False, st') \<and> s_g st' = ex_g3 \<and> s_edges st' = edge_list ex_g3) \<and>
   (\<exists>st'. alias_rewire fp_exact
      (AliasProbabilisticRewireStrategy ex_g2 (edge_list ex_g2) corr_one DegreeBlock False
         (list_rng [0, 1]))
      1 False False = Some (False, st') \<and> s_g st' = ex_g2 \<and> s_edges st' = edge_list ex_g2) \<and>
   (\<exists>st'. trad_rewire
      (TradBlockRewireStrategy ex_g2 (edge_list ex_g2) corr_one DegreeBlock False
         (list_rng [1, 1, 1]))
      0 False False = Some (False, st') \<and> s_g st' = ex_g2 \<and> s_edges st' = edge_list ex_g2)"
proof -
  let ?e = "ErdosRewireStrategy ex_g2 (edge_list ex_g2) corr_one DegreeBlock False (list_rng [0, 1])"
  let ?r = "RandomRewireStrategy ex_g2 (edge_list ex_g2) corr_one DegreeBlock False (list_rng [0])"
  let ?c = "CorrelatedRewireStrategy ex_g3 (edge_list ex_g3) corr_one DegreeBlock False (list_rng [1])"
  let ?p = "ProbabilisticRewireStrategy ex_g3 (edge_list ex_g3) corr_one DegreeBlock True (list_rng [2])"
  let ?a = "AliasProbabilisticRewireStrategy ex_g2 (edge_list ex_g2) corr_one DegreeBlock False
         (list_rng [0, 1])"
  let ?t = "TradBlockRewireStrategy ex_g2 (edge_list ex_g2) corr_one DegreeBlock False
         (list_rng [1, 1, 1])"
  have ge: "s_g ?e = ex_g2" "s_edges ?e = edge_list ex_g2"
    by (simp_all add: ErdosRewireStrategy_def)
  have gr: "s_g ?r = ex_g2" "s_edges ?r = edge_list ex_g2"
    by (simp_all add: RandomRewireStrategy_def)
  have gc: "s_g ?c = ex_g3" "s_edges ?c = edge_list ex_g3"
    by (simp_all add: CorrelatedRewireStrategy_def)
  have gp: "s_g ?p = ex_g3" "s_edges ?p = edge_list ex_g3"
    by (simp_all add: ProbabilisticRewireStrategy_def)
  have ga: "s_g ?a = ex_g2" "s_edges ?a = edge_list ex_g2"
    by (simp_all add: AliasProbabilisticRewireStrategy_def ex_g2_def alias_push_def Let_def upt_rec)
  have gt: "s_g ?t = ex_g2" "s_edges ?t = edge_list ex_g2"
    by (simp_all add: TradBlockRewireStrategy_def Let_def)
  obtain e' where e: "erdos_rewire ?e 0 False False = Some (False, e')"
    using ex_erdos_rejects by (cases "erdos_rewire ?e 0 False False") auto
  obtain r' where r: "random_rewire ?r 0 True True = Some (False, r')"
    using ex_random_rejects by (cases "random_rewire ?r 0 True True") auto
  obtain c' where c: "correlated_rewire ?c 1 False False = Some (False, c')"
    using ex_correlated_rejects by (cases "correlated_rewire ?c 1 False False") auto
  obtain p' where p: "probabilistic_rewire fp_exact ?p 1 True False = Some (False, p')"
    using ex_probabilistic_rejects by (cases "probabilistic_rewire fp_exact ?p 1 True False") auto
  obtain a' where a: "alias_rewire fp_exact ?a 1 False False = Some (False, a')"
    using ex_alias_rejects by (cases "alias_rewire fp_exact ?a 1 False False") auto
  obtain t' where t: "trad_rewire ?t 0 False False = Some (False, t')"
    using ex_trad_rejects by (cases "trad_rewire ?t 0 False False") auto
  have fe: "s_g e' = ex_g2 \<and> s_edges e' = edge_list ex_g2"
    using rejected_move_changes_nothing[where est="?e" and est'=e' and ei=0
        and self_loops=False and parallel_edges=False and rst="?r" and rst'=r' and cst="?c"
        and cst'=c' and fp=fp_exact and pst="?p" and pst'=p' and ast="?a" and ast'=a'
        and tst="?t" and tst'=t'] e
    unfolding ge by blast
  have fr: "s_g r' = ex_g2 \<and> s_edges r' = edge_list ex_g2"
    using rejected_move_changes_nothing[where est="?e" and est'=e' and ei=0
        and self_loops=True and parallel_edges=True and rst="?r" and rst'=r' and cst="?c"
        and cst'=c' and fp=fp_exact and pst="?p" and pst'=p' and ast="?a" and ast'=a'
        and tst="?t" and tst'=t'] r
    unfolding gr by blast
  have fc: "s_g c' = ex_g3 \<and> s_edges c' = edge_list ex_g3"
    using rejected_move_changes_nothing[where est="?e" and est'=e' and ei=1
        and self_loops=False and parallel_edges=False and rst="?r" and rst'=r' and cst="?c"
        and cst'=c' and fp=fp_exact and pst="?p" and pst'=p' and ast="?a" and ast'=a'
        and tst="?t" and tst'=t'] c
    unfolding gc by blast
  have fp: "s_g p' = ex_g3 \<and> s_edges p' = edge_list ex_g3"
    using rejected_move_changes_nothing[where est="?e" and est'=e' and ei=1
        and self_loops=True and parallel_edges=False and rst="?r" and rst'=r' and cst="?c"
        and cst'=c' and fp=fp_exact and pst="?p" and pst'=p' and ast="?a" and ast'=a'
        and tst="?t" and tst'=t'] p
    unfolding gp by blast
  have fa: "s_g a' = ex_g2 \<and> s_edges a' = edge_list ex_g2"
    using rejected_move_changes_nothing[where est="?e" and est'=e' and ei=1
        and self_loops=False and parallel_edges=False and rst="?r" and rst'=r' and cst="?c"
        and cst'=c' and fp=fp_exact and pst="?p" and pst'=p' and ast="?a" and ast'=a'
        and tst="?t" and tst'=t'] a
    unfolding ga by blast
  have ft: "s_g t' = ex_g2 \<and> s_edges t' = edge_list ex_g2"
    using rejected_move_changes_nothing[where est="?e" and est'=e' and ei=0
        and self_loops=False and parallel_edges=False and rst="?r" and rst'=r' and cst="?c"
        and cst'=c' and fp=fp_exact and pst="?p" and pst'=p' and ast="?a" and ast'=a'
        and tst="?t" and tst'=t'] t
    unfolding gt by blast
  show ?thesis using e r c p a t fe fr fc fp fa ft by blast
qed

lemma ex_correlated_state:
  "s_g (CorrelatedRewireStrategy g edges corr_prob blockdeg cache rng) = g"
  "s_edges (CorrelatedRewireStrategy g edges corr_prob blockdeg cache rng) = edges"
  by (simp_all add: CorrelatedRewireStrategy_def)

lemma ex_correlated_target:
  "map_option fst (correlated_get_target_edge
      (CorrelatedRewireStrategy ex_u2 (edge_list ex_u2) corr_one DegreeBlock False (list_rng [1])) 1)
   = Some (0, True)"
  by (simp add: CorrelatedRewireStrategy_def ex_u2_def
       correlated_get_target_edge_def correlated_index_edge_def eval_defs)

definition vertex_block :: "nat blockdeg" where
  "vertex_block = PropertyBlock (\<lambda>v. v)"

definition blocks_after ::
  "'b blockdeg \<Rightarrow> (bool \<times> 'a base_state_scheme) option \<Rightarrow> ('b \<times> 'b) multiset option" where
  "blocks_after bd res = map_option (\<lambda>r. edge_blocks bd (s_g (snd r))) res"

lemma ex_blocks_differ: "{#(0 :: nat, 3 :: nat), (2, 1)#} \<noteq> {#(0, 1), (2, 3)#}"
proof
  assume "{#(0 :: nat, 3 :: nat), (2, 1)#} = {#(0, 1), (2, 3)#}"
  then have "set_mset {#(0 :: nat, 3 :: nat), (2, 1)#} = set_mset {#(0, 1), (2, 3)#}" by simp
  then show False by auto
qed

section \<open>Properties of the driver\<close>

lemma persist_loop_once: "persist_loop step False st = step st"
  by (subst persist_loop.simps) (auto split: option.splits)

lemma uniform_int_le:
  assumes "uniform_int 0 hi r = (j, r')"
  shows "j \<le> hi"
proof -
  have "j = fst (rng_next r) mod (hi + 1)"
    using assms unfolding uniform_int_def by (auto split: prod.splits)
  then show ?thesis by (simp add: less_Suc_eq_le[symmetric])
qed

lemma random_permutation_step_props:
  assumes i: "i < length p" and st: "random_permutation_step i p r = (pos, r')"
  shows "length pos = length p \<and> mset pos = mset p \<and> take i pos = take i p"
proof -
  obtain j r1 where u: "uniform_int 0 (length p - i - 1) r = (j, r1)"
    by (cases "uniform_int 0 (length p - i - 1) r")
  have j: "i + j < length p" using uniform_int_le[OF u] i by simp
  have pos: "pos = p[i := p ! (i + j), i + j := p ! i]"
    using st u unfolding random_permutation_step_def by simp
  have "mset pos = mset p" unfolding pos using mset_swap[OF j i] by simp
  then show ?thesis unfolding pos by simp
qed

lemma length_concat_perms:
  assumes "list_all (\<lambda>p. mset p = mset [0..<m]) ps"
  shows "length (concat ps) = length ps * m"
  using assms
proof (induction ps)
  case Nil
  then show ?case by simp
next
  case (Cons p ps)
  have "mset p = mset [0..<m]" using Cons.prems by simp
  then have "size (mset p) = size (mset [0..<m])" by simp
  then have "length p = m" by simp
  then show ?case using Cons by simp
qed

lemma sweep_loop_total:
  assumes "\<forall>st ei. rw st ei sl pe \<noteq> None"
  shows "sweep_loop rw sl pe False no_sweep i k d \<noteq> None"
proof (induction k arbitrary: i d)
  case 0
  show ?case by simp
next
  case (Suc k)
  obtain pos r where ps: "random_permutation_step i (d_edge_pos d) (s_rng (d_rewire d)) = (pos, r)"
    by (cases "random_permutation_step i (d_edge_pos d) (s_rng (d_rewire d))")
  obtain b st where rw: "rw ((d_rewire d)\<lparr>s_rng := r\<rparr>) (pos ! i) sl pe = Some (b, st)"
    using assms by (metis not_None_eq surj_pair)
  show ?case using Suc ps rw by (cases no_sweep) (simp_all add: Let_def persist_loop_once)
qed

lemma iter_loop_total:
  assumes "\<forall>st ei. rw st ei sl pe \<noteq> None"
  shows "iter_loop rw sl pe False no_sweep n d \<noteq> None"
proof (induction n arbitrary: d)
  case 0
  show ?case by simp
next
  case (Suc n)
  obtain d1 where "sweep_loop rw sl pe False no_sweep 0 (length (d_edge_pos d)) d = Some d1"
    using sweep_loop_total[where rw=rw and sl=sl and pe=pe, OF assms] by (metis not_None_eq)
  then show ?case using Suc by simp
qed

lemma perm_upt_nth:
  assumes "mset p = mset [0..<m]" "i < length p"
  shows "p ! i < m"
proof -
  have "set p = {0..<m}" using assms(1) by (metis mset_eq_setD set_upt)
  then show ?thesis using nth_mem[OF assms(2)] by auto
qed

lemma sweep_loop_returns:
  assumes rngI: "\<forall>st r. I st \<longrightarrow> I (st\<lparr>s_rng := r\<rparr>)"
    and step: "\<forall>st ei. I st \<and> ei < m \<longrightarrow> (\<exists>b st'. rw st ei sl pe = Some (b, st') \<and> I st')"
  shows "I (d_rewire d) \<Longrightarrow> i + k = length (d_edge_pos d) \<Longrightarrow>
         mset (d_edge_pos d) = mset [0..<m] \<Longrightarrow>
         \<exists>d'. sweep_loop rw sl pe False no_sweep i k d = Some d' \<and> I (d_rewire d') \<and>
              mset (d_edge_pos d') = mset [0..<m]"
proof (induction k arbitrary: i d)
  case 0
  then show ?case by simp
next
  case (Suc k)
  let ?p = "d_edge_pos d"
  have i: "i < length ?p" using Suc.prems(2) by simp
  obtain pos r where ps: "random_permutation_step i ?p (s_rng (d_rewire d)) = (pos, r)"
    by (cases "random_permutation_step i ?p (s_rng (d_rewire d))")
  note pp = random_permutation_step_props[OF i ps]
  have mp: "mset pos = mset [0..<m]" using pp Suc.prems(3) by simp
  have ei: "pos ! i < m" using perm_upt_nth[OF mp] i pp by simp
  have I1: "I ((d_rewire d)\<lparr>s_rng := r\<rparr>)" using rngI Suc.prems(1) by blast
  obtain b st where rw: "rw ((d_rewire d)\<lparr>s_rng := r\<rparr>) (pos ! i) sl pe = Some (b, st)"
    and I2: "I st"
    using step I1 ei by blast
  define d1 where "d1 = d\<lparr>d_rewire := st, d_edge_pos := pos,
                             d_pcount := (if \<not> b then d_pcount d + 1 else d_pcount d)\<rparr>"
  have unf: "sweep_loop rw sl pe False no_sweep i (Suc k) d =
               (if no_sweep then Some d1 else sweep_loop rw sl pe False no_sweep (Suc i) k d1)"
    using ps rw by (simp add: Let_def persist_loop_once d1_def)
  have a1: "I (d_rewire d1)" using I2 by (simp add: d1_def)
  have a2: "Suc i + k = length (d_edge_pos d1)" using Suc.prems(2) pp by (simp add: d1_def)
  have a3: "mset (d_edge_pos d1) = mset [0..<m]" using mp by (simp add: d1_def)
  show ?case
  proof (cases no_sweep)
    case True
    then show ?thesis using unf a1 a3 by simp
  next
    case False
    then show ?thesis using unf Suc.IH[OF a1 a2 a3] by simp
  qed
qed

lemma iter_loop_returns:
  assumes rngI: "\<forall>st r. I st \<longrightarrow> I (st\<lparr>s_rng := r\<rparr>)"
    and step: "\<forall>st ei. I st \<and> ei < m \<longrightarrow> (\<exists>b st'. rw st ei sl pe = Some (b, st') \<and> I st')"
  shows "I (d_rewire d) \<Longrightarrow> mset (d_edge_pos d) = mset [0..<m] \<Longrightarrow>
         \<exists>d'. iter_loop rw sl pe False no_sweep n d = Some d'"
proof (induction n arbitrary: d)
  case 0
  show ?case by simp
next
  case (Suc n)
  have l: "0 + length (d_edge_pos d) = length (d_edge_pos d)" by simp
  from sweep_loop_returns[where I=I and rw=rw and sl=sl and pe=pe and m=m and d=d and i=0
      and k="length (d_edge_pos d)" and no_sweep=no_sweep, OF rngI step Suc.prems(1) l Suc.prems(2)]
  obtain d1 where s: "sweep_loop rw sl pe False no_sweep 0 (length (d_edge_pos d)) d = Some d1"
    and I1: "I (d_rewire d1)" and m1: "mset (d_edge_pos d1) = mset [0..<m]"
    by auto
  from Suc.IH[OF I1 m1] show ?case using s by simp
qed

lemma swap_target_returns:
  assumes "e < length edges" "fst te < length edges"
  shows "\<exists>edges' g'. swap_target e te edges g = Some (edges', g') \<and> length edges' = length edges"
proof (cases "e = fst te")
  case True
  then show ?thesis by (simp add: swap_target_def)
next
  case False
  show ?thesis unfolding swap_target_unfold[OF False assms] by simp
qed

lemma rewire_base_returns:
  assumes g: "gte st0 ei = Some (et, st)"
    and r: "ei < length (s_edges st)" "fst et < length (s_edges st)"
    and upd: "\<forall>i b s. upd i b s = Some s"
  shows "\<exists>b st'. rewire_base gte upd st0 ei self_loops parallel_edges = Some (b, st') \<and>
           length (s_edges st') = length (s_edges st)"
proof -
  obtain edges' g' where sw: "swap_target ei et (s_edges st) (s_g st) = Some (edges', g')"
    and len: "length edges' = length (s_edges st)"
    using swap_target_returns[OF r] by blast
  show ?thesis
    unfolding rewire_base_def using g r upd sw len by auto
qed

lemma random_rewire_returns:
  assumes "ei < length (s_edges st)"
  shows "\<exists>b st'. random_rewire st ei self_loops parallel_edges = Some (b, st') \<and>
           length (s_edges st') = length (s_edges st)"
proof -
  have ne: "s_edges st \<noteq> []" using assms by auto
  obtain i r1 where u: "uniform_int 0 (length (s_edges st) - 1) (s_rng st) = (i, r1)"
    by (cases "uniform_int 0 (length (s_edges st) - 1) (s_rng st)")
  have i: "i < length (s_edges st)" using uniform_int_le[OF u] assms by simp
  obtain c r2 where b: "bernoulli 1 2 r1 = (c, r2)" by (cases "bernoulli 1 2 r1")
  obtain et st1 where g: "random_get_target_edge st ei = Some (et, st1)"
    and f: "fst et = i" and e: "s_edges st1 = s_edges st"
    unfolding random_get_target_edge_def using ne u b by (cases "directed (s_g st)") auto
  have r: "ei < length (s_edges st1)" "fst et < length (s_edges st1)"
    using assms i f e by simp_all
  have upd: "\<forall>i b s. random_update_edge i b s = Some s" by (simp add: random_update_edge_def)
  from rewire_base_returns[where gte=random_get_target_edge and upd=random_update_edge
      and self_loops=self_loops and parallel_edges=parallel_edges, OF g r upd]
  show ?thesis unfolding random_rewire_def e by simp
qed

definition ex_g0 :: graph where
  "ex_g0 = \<lparr>directed = True, num_vertices = 2, edge_list = [], next_edge = 0\<rparr>"

section \<open>The buckets of the Alias strategy\<close>

definition ex_g4 :: graph where
  "ex_g4 = \<lparr>directed = True, num_vertices = 6,
            edge_list = [Edge 0 1 0, Edge 2 3 1, Edge 4 3 2], next_edge = 3\<rparr>"

definition in_bucket_after ::
  "'b \<Rightarrow> (bool \<times> 'b alias_state) option \<Rightarrow> nat list option" where
  "in_bucket_after b res = map_option (\<lambda>r. a_in_edges (snd r) b) res"

definition out_bucket_after ::
  "'b \<Rightarrow> (bool \<times> 'b alias_state) option \<Rightarrow> nat list option" where
  "out_bucket_after b res = map_option (\<lambda>r. a_out_edges (snd r) b) res"

definition block_of_target_after ::
  "nat \<Rightarrow> (bool \<times> 'b alias_state) option \<Rightarrow> 'b option" where
  "block_of_target_after i res =
     map_option (\<lambda>r. a_blockdeg (snd r) (target (s_edges (snd r) ! i) (s_g (snd r))) (s_g (snd r))) res"

definition block_of_source_after ::
  "nat \<Rightarrow> (bool \<times> 'b alias_state) option \<Rightarrow> 'b option" where
  "block_of_source_after i res =
     map_option (\<lambda>r. a_blockdeg (snd r) (source (s_edges (snd r) ! i) (s_g (snd r))) (s_g (snd r))) res"

lemmas alias_eval_defs =
  alias_rewire_def AliasProbabilisticRewireStrategy_def
  alias_get_target_edge_def alias_update_edge_def alias_candidate_def alias_get_prob_def
  alias_push_def alias_samplers_def

text \<open>
  Claim C2 fails on the code. In a directed graph the remove branch of
  \<^verbatim>\<open>update_edge\<close> does nothing and the insert branch appends: after the accepted move
  below, slot 0 is still listed under the block (1, 0) although its target now has the
  block (2, 0), and is listed under (2, 0) as well.
\<close>

theorem alias_buckets_stale:
  "a_in_edges (AliasProbabilisticRewireStrategy ex_g4 (edge_list ex_g4) corr_one DegreeBlock False
       (list_rng [0, 0])) (1, 0) = [0] \<and>
   map_option fst (alias_rewire fp_exact
     (AliasProbabilisticRewireStrategy ex_g4 (edge_list ex_g4) corr_one DegreeBlock False
       (list_rng [0, 0])) 0 True True) = Some True \<and>
   in_bucket_after (1, 0) (alias_rewire fp_exact
     (AliasProbabilisticRewireStrategy ex_g4 (edge_list ex_g4) corr_one DegreeBlock False
       (list_rng [0, 0])) 0 True True) = Some [0, 1] \<and>
   block_of_target_after 0 (alias_rewire fp_exact
     (AliasProbabilisticRewireStrategy ex_g4 (edge_list ex_g4) corr_one DegreeBlock False
       (list_rng [0, 0])) 0 True True) = Some (2, 0) \<and>
   in_bucket_after (2, 0) (alias_rewire fp_exact
     (AliasProbabilisticRewireStrategy ex_g4 (edge_list ex_g4) corr_one DegreeBlock False
       (list_rng [0, 0])) 0 True True) = Some [1, 2, 0]"
  by code_simp

text \<open>
  In an undirected graph the remove branch takes the slot out of \<^verbatim>\<open>_in_edges\<close> only: after
  the accepted move below, slot 1 is still listed in \<^verbatim>\<open>_out_edges\<close> under the block 2
  although its source now has the block 1, and slot 0 is listed twice under the block 0.
\<close>

theorem alias_out_buckets_stale:
  "a_out_edges (AliasProbabilisticRewireStrategy ex_u2 (edge_list ex_u2) corr_one vertex_block False
       (list_rng [1, 0, 0])) 2 = [1] \<and>
   map_option fst (alias_rewire fp_exact
     (AliasProbabilisticRewireStrategy ex_u2 (edge_list ex_u2) corr_one vertex_block False
       (list_rng [1, 0, 0])) 0 True True) = Some True \<and>
   out_bucket_after 2 (alias_rewire fp_exact
     (AliasProbabilisticRewireStrategy ex_u2 (edge_list ex_u2) corr_one vertex_block False
       (list_rng [1, 0, 0])) 0 True True) = Some [1] \<and>
   block_of_source_after 1 (alias_rewire fp_exact
     (AliasProbabilisticRewireStrategy ex_u2 (edge_list ex_u2) corr_one vertex_block False
       (list_rng [1, 0, 0])) 0 True True) = Some 1 \<and>
   out_bucket_after 0 (alias_rewire fp_exact
     (AliasProbabilisticRewireStrategy ex_u2 (edge_list ex_u2) corr_one vertex_block False
       (list_rng [1, 0, 0])) 0 True True) = Some [0, 0]"
  by code_simp

text \<open>
  Claim C7 fails on the code for the Alias strategy. On the directed graph of the one
  edge 0 \<rightarrow> 1 the sampler of the source's block (0, 1) can return that block, which
  no target has: \<^verbatim>\<open>get_target_edge\<close> then reads a slot from the empty vector
  \<^verbatim>\<open>_in_edges[nt]\<close>, which is undefined, instead of rejecting; the driver does not get
  to count the failure.
\<close>

theorem alias_single_edge_undefined:
  "alias_rewire fp_exact
     (AliasProbabilisticRewireStrategy ex_g1 (edge_list ex_g1) corr_one DegreeBlock False
       (list_rng [1])) 0 self_loops parallel_edges = None \<and>
   graph_rewire AliasProbabilisticRewireStrategy (alias_rewire fp_exact) ex_g1 corr_one
     False False (1, False) (False, False, False) (list_rng [0, 1]) DegreeBlock = None"
  by (simp add: alias_eval_defs ex_g1_def eval_defs graph_rewire_def random_permutation_step_def
        persist_loop_once)

section \<open>The sanitisation of probabilities\<close>

text \<open>
  The finite values of an IEEE 754 binary64 are the numbers \<open>\<plusminus> m * 2 ^ (e - 1074)\<close>
  with a significand \<open>m < 2 ^ 53\<close> and \<open>e \<le> 2045\<close>; the normal ones have
  \<open>2 ^ 52 \<le> m\<close>, the others (with \<open>e = 0\<close>) are the subnormal ones.
\<close>

definition finite_double :: "real \<Rightarrow> bool" where
  "finite_double x =
     (\<exists>m e :: nat. m < 2 ^ 53 \<and> e \<le> 2045 \<and> \<bar>x\<bar> = real m * 2 ^ e / 2 ^ 1074)"

definition normal_double :: "real \<Rightarrow> bool" where
  "normal_double x =
     (\<exists>m e :: nat. 2 ^ 52 \<le> m \<and> m < 2 ^ 53 \<and> e \<le> 2045 \<and> \<bar>x\<bar> = real m * 2 ^ e / 2 ^ 1074)"

lemma pow_split: "(2 :: real) ^ 1074 = 2 ^ 52 * 2 ^ 1022"
  by (simp only: power_add[symmetric]) simp

lemma min_is_normal: "normal_double (1 / 2 ^ 1022)"
  unfolding normal_double_def
proof (intro exI conjI)
  show "(2 :: nat) ^ 52 \<le> 2 ^ 52" by simp
  show "(2 :: nat) ^ 52 < 2 ^ 53" by simp
  show "(0 :: nat) \<le> 2045" by simp
  have "real (2 ^ 52) * 2 ^ 0 / 2 ^ 1074 = (2 :: real) ^ 52 / (2 ^ 52 * 2 ^ 1022)"
    by (simp only: pow_split) simp
  also have "\<dots> = 1 / 2 ^ 1022" by simp
  finally show "\<bar>1 / 2 ^ 1022 :: real\<bar> = real (2 ^ 52) * 2 ^ 0 / 2 ^ 1074" by simp
qed

lemma min_is_least_normal:
  assumes "normal_double x" "0 < x"
  shows "1 / 2 ^ 1022 \<le> x"
proof -
  obtain m e :: nat where m: "2 ^ 52 \<le> m" and x: "\<bar>x\<bar> = real m * 2 ^ e / 2 ^ 1074"
    using assms(1) unfolding normal_double_def by blast
  have "(2 :: real) ^ 52 \<le> real m" using m by (metis of_nat_le_iff of_nat_numeral of_nat_power)
  moreover have "(1 :: real) \<le> 2 ^ e" by simp
  ultimately have "(2 :: real) ^ 52 * 1 \<le> real m * 2 ^ e"
    by (intro mult_mono) simp_all
  then have "(2 :: real) ^ 52 / 2 ^ 1074 \<le> real m * 2 ^ e / 2 ^ 1074"
    by (simp add: divide_right_mono)
  moreover have "(2 :: real) ^ 52 / 2 ^ 1074 = 1 / 2 ^ 1022"
    by (simp only: pow_split) simp
  ultimately show ?thesis using x assms(2) by simp
qed

lemma subnormal_is_double: "finite_double (1 / 2 ^ 1074)"
  unfolding finite_double_def
  by (intro exI[of _ 1] exI[of _ 0]) simp

lemma subnormal_below_min: "(1 :: real) / 2 ^ 1074 < 1 / 2 ^ 1022"
proof -
  have "(2 :: real) ^ 1022 < 2 ^ 1074" by (rule power_strict_increasing) simp_all
  then show ?thesis by (intro divide_strict_left_mono) simp_all
qed

lemma map_of_foldl_update:
  "map_of (foldl (\<lambda>al k. AList.update k (F k) al) al0 ks) k
     = (if k \<in> set ks then Some (F k) else map_of al0 k)"
proof (induction ks arbitrary: al0)
  case Nil
  show ?case by simp
next
  case (Cons a ks)
  show ?case by (simp add: Cons update_conv')
qed

lemma map_of_cache_probs:
  assumes "s \<in> set ds" "t \<in> set ds"
  shows "map_of (cache_probs corr_prob ds) (s, t) = Some (sanitize_prob (corr_prob s t))"
proof -
  have "cache_probs corr_prob ds
      = foldl (\<lambda>al k. AList.update k (sanitize_prob (corr_prob (fst k) (snd k))) al) []
          (List.product ds ds)"
  proof -
    have "(\<lambda>al (s, t). AList.update (s, t) (sanitize_prob (corr_prob s t)) al)
        = (\<lambda>al k. AList.update k (sanitize_prob (corr_prob (fst k) (snd k))) al)"
      by (intro ext) (simp add: case_prod_beta)
    then show ?thesis unfolding cache_probs_def by simp
  qed
  then show ?thesis using assms by (simp add: map_of_foldl_update)
qed

lemma cache_probs_nonempty:
  assumes "s \<in> set ds"
  shows "cache_probs corr_prob ds \<noteq> []"
  using map_of_cache_probs[OF assms assms, of corr_prob] by auto

lemma alias_samplers_lookup:
  "foldl (\<lambda>m s. m(s \<mapsto> G s)) m0 ds s = (if s \<in> set ds then Some (G s) else m0 s)"
  by (induction ds arbitrary: m0) auto

lemma alias_push_tables:
  "a_probs (alias_push i st) = a_probs st \<and> a_sampler (alias_push i st) = a_sampler st"
  by (simp add: alias_push_def Let_def)

lemma foldl_alias_push_tables:
  "a_probs (foldl (\<lambda>st i. alias_push i st) st is) = a_probs st \<and>
   a_sampler (foldl (\<lambda>st i. alias_push i st) st is) = a_sampler st"
  by (induction "is" arbitrary: st) (simp_all add: alias_push_tables)

text \<open>
  Claim C5, as amended. The Probabilistic and the Alias strategy use
  \<^verbatim>\<open>corr_prob(bs, bt)\<close> sanitised in two steps: a NaN, an infinity or a negative value
  becomes 0, and then 0 becomes \<^verbatim>\<open>numeric_limits<double>::min()\<close>, which is
  \<open>2 ^ -1022\<close>, the smallest positive normal double (subnormal doubles are smaller).
  This holds for the value \<^verbatim>\<open>get_prob\<close> returns, computed on demand or read from the
  table filled for the blocks of the edges, and for the weights of the Alias samplers.
  The Traditional strategy applies the first step only to its sampler's weights: 0
  stays 0.
\<close>

theorem sanitized_probabilities:
  "sanitize_prob NaN = numeric_limits_min \<and> sanitize_prob PInf = numeric_limits_min \<and>
   sanitize_prob NInf = numeric_limits_min \<and>
   sanitize_prob (Fin x) = (if x \<le> 0 then numeric_limits_min else Fin x) \<and>
   sanitize_trad NaN = Fin 0 \<and> sanitize_trad PInf = Fin 0 \<and> sanitize_trad NInf = Fin 0 \<and>
   sanitize_trad (Fin x) = (if x < 0 then Fin 0 else Fin x) \<and>
   sanitize_prob p = (if d_eq (sanitize_trad p) (Fin 0) then numeric_limits_min else sanitize_trad p) \<and>
   numeric_limits_min = Fin (1 / 2 ^ 1022) \<and> normal_double (1 / 2 ^ 1022) \<and>
   (\<forall>y. normal_double y \<and> 0 < y \<longrightarrow> 1 / 2 ^ 1022 \<le> y) \<and>
   ((cache \<longrightarrow> s \<in> set (collect_blocks bd g edges) \<and> t \<in> set (collect_blocks bd g edges)) \<longrightarrow>
      fst (probabilistic_get_prob (ProbabilisticRewireStrategy g edges corr_prob bd cache rng) s t)
        = sanitize_prob (corr_prob s t)) \<and>
   (s \<in> set (collect_blocks bd g edges) \<and> t \<in> set (collect_blocks bd g edges) \<longrightarrow>
      fst (alias_get_prob (AliasProbabilisticRewireStrategy g edges corr_prob bd cache rng) s t)
        = sanitize_prob (corr_prob s t) \<and>
      a_sampler (AliasProbabilisticRewireStrategy g edges corr_prob bd cache rng) s
        = Some (Sampler (collect_blocks bd g edges)
                  (map (\<lambda>t. sanitize_prob (corr_prob s t)) (collect_blocks bd g edges)))) \<and>
   s_probs (t_sampler (TradBlockRewireStrategy g edges corr_prob bd cache rng))
     = map (\<lambda>(s, t). sanitize_trad (corr_prob s t))
         (s_items (t_sampler (TradBlockRewireStrategy g edges corr_prob bd cache rng)))"
proof -
  let ?ds = "collect_blocks bd g edges"
  have s1: "sanitize_prob NaN = numeric_limits_min" "sanitize_prob PInf = numeric_limits_min"
    "sanitize_prob NInf = numeric_limits_min"
    "sanitize_prob (Fin x) = (if x \<le> 0 then numeric_limits_min else Fin x)"
    by (auto simp: sanitize_prob_def isnan_def isinf_def Let_def)
  have s2: "sanitize_trad NaN = Fin 0" "sanitize_trad PInf = Fin 0" "sanitize_trad NInf = Fin 0"
    "sanitize_trad (Fin x) = (if x < 0 then Fin 0 else Fin x)"
    by (auto simp: sanitize_trad_def isnan_def isinf_def)
  have s3: "sanitize_prob p
      = (if d_eq (sanitize_trad p) (Fin 0) then numeric_limits_min else sanitize_trad p)"
    by (simp add: sanitize_prob_def sanitize_trad_def Let_def)
  have m: "numeric_limits_min = Fin (1 / 2 ^ 1022)" by (simp only: numeric_limits_min_def)
  have least: "\<forall>y. normal_double y \<and> 0 < y \<longrightarrow> 1 / 2 ^ 1022 \<le> y"
    using min_is_least_normal by blast
  have p: "(cache \<longrightarrow> s \<in> set ?ds \<and> t \<in> set ?ds) \<longrightarrow>
      fst (probabilistic_get_prob (ProbabilisticRewireStrategy g edges corr_prob bd cache rng) s t)
        = sanitize_prob (corr_prob s t)"
  proof (cases cache)
    case False
    then show ?thesis
      by (simp add: probabilistic_get_prob_def ProbabilisticRewireStrategy_def)
  next
    case True
    show ?thesis
    proof
      assume "cache \<longrightarrow> s \<in> set ?ds \<and> t \<in> set ?ds"
      then have st: "s \<in> set ?ds" "t \<in> set ?ds" using True by simp_all
      show "fst (probabilistic_get_prob (ProbabilisticRewireStrategy g edges corr_prob bd cache rng) s t)
        = sanitize_prob (corr_prob s t)"
        using True cache_probs_nonempty[OF st(1), of corr_prob] map_of_cache_probs[OF st, of corr_prob]
        by (simp add: probabilistic_get_prob_def ProbabilisticRewireStrategy_def probs_lookup_def)
    qed
  qed
  have tab: "a_probs (AliasProbabilisticRewireStrategy g edges corr_prob bd cache rng)
               = cache_probs corr_prob ?ds"
    and smp: "a_sampler (AliasProbabilisticRewireStrategy g edges corr_prob bd cache rng)
               = alias_samplers corr_prob ?ds"
    by (simp_all add: AliasProbabilisticRewireStrategy_def Let_def foldl_alias_push_tables)
  have a: "s \<in> set ?ds \<and> t \<in> set ?ds \<longrightarrow>
      fst (alias_get_prob (AliasProbabilisticRewireStrategy g edges corr_prob bd cache rng) s t)
        = sanitize_prob (corr_prob s t) \<and>
      a_sampler (AliasProbabilisticRewireStrategy g edges corr_prob bd cache rng) s
        = Some (Sampler ?ds (map (\<lambda>t. sanitize_prob (corr_prob s t)) ?ds))"
  proof
    assume st: "s \<in> set ?ds \<and> t \<in> set ?ds"
    then have 1: "map_of (cache_probs corr_prob ?ds) (s, t) = Some (sanitize_prob (corr_prob s t))"
      by (simp add: map_of_cache_probs)
    have 2: "alias_samplers corr_prob ?ds s
               = Some (Sampler ?ds (map (\<lambda>t. sanitize_prob (corr_prob s t)) ?ds))"
      using st unfolding alias_samplers_def by (simp add: alias_samplers_lookup)
    show "fst (alias_get_prob (AliasProbabilisticRewireStrategy g edges corr_prob bd cache rng) s t)
        = sanitize_prob (corr_prob s t) \<and>
      a_sampler (AliasProbabilisticRewireStrategy g edges corr_prob bd cache rng) s
        = Some (Sampler ?ds (map (\<lambda>t. sanitize_prob (corr_prob s t)) ?ds))"
      using 1 2 by (simp add: alias_get_prob_def probs_lookup_def tab smp)
  qed
  have t: "s_probs (t_sampler (TradBlockRewireStrategy g edges corr_prob bd cache rng))
     = map (\<lambda>(s, t). sanitize_trad (corr_prob s t))
         (s_items (t_sampler (TradBlockRewireStrategy g edges corr_prob bd cache rng)))"
    by (simp add: TradBlockRewireStrategy_def Let_def)
  show ?thesis using s1 s2 s3 m min_is_normal least p a t by blast
qed

text \<open>
  Claim C5 as stated fails in one word: the value that replaces 0 is not the smallest
  positive representable double. The subnormal \<open>2 ^ -1074\<close> is a double, is positive
  and is smaller.
\<close>

theorem sanitize_not_smallest_double_counterexample:
  "sanitize_prob (Fin 0) = Fin (1 / 2 ^ 1022) \<and> finite_double (1 / 2 ^ 1074) \<and>
   (0 :: real) < 1 / 2 ^ 1074 \<and> d_less (Fin (1 / 2 ^ 1074)) (sanitize_prob (Fin 0))"
proof -
  have s: "sanitize_prob (Fin 0) = Fin (1 / 2 ^ 1022)"
    by (simp add: sanitize_prob_def isnan_def isinf_def Let_def numeric_limits_min_def)
  have p: "(0 :: real) < 1 / 2 ^ 1074" by simp
  have l: "d_less (Fin (1 / 2 ^ 1074)) (Fin (1 / 2 ^ 1022))"
    using subnormal_below_min by simp
  show ?thesis using s subnormal_is_double p l by (simp only: simp_thms)
qed

definition ex_corr :: "nat \<times> nat \<Rightarrow> nat \<times> nat \<Rightarrow> double" where
  "ex_corr s t = (if s = t then Fin (1 / 2) else if fst s = 0 then NaN else Fin (- 1))"

lemma one_is_normal: "normal_double 1"
  unfolding normal_double_def
proof (intro exI conjI)
  show "(2 :: nat) ^ 52 \<le> 2 ^ 52" by simp
  show "(2 :: nat) ^ 52 < 2 ^ 53" by simp
  show "(1022 :: nat) \<le> 2045" by simp
  have "real (2 ^ 52) * 2 ^ 1022 / 2 ^ 1074 = (2 :: real) ^ 52 * 2 ^ 1022 / (2 ^ 52 * 2 ^ 1022)"
    by (simp only: pow_split) simp
  also have "\<dots> = 1" by simp
  finally show "\<bar>1 :: real\<bar> = real (2 ^ 52) * 2 ^ 1022 / 2 ^ 1074" by simp
qed

lemma ex_blocks:
  "collect_blocks DegreeBlock ex_g2 (edge_list ex_g2) = [(1, 0), (0, 1)]"
  by (simp add: ex_g2_def eval_defs)

theorem sanitized_probabilities_witness:
  "normal_double 1 \<and> (0 :: real) < 1 \<and> (1 :: real) / 2 ^ 1022 \<le> 1 \<and>
   (0, 1) \<in> set (collect_blocks DegreeBlock ex_g2 (edge_list ex_g2)) \<and>
   (1, 0) \<in> set (collect_blocks DegreeBlock ex_g2 (edge_list ex_g2)) \<and>
   ex_corr (0, 1) (1, 0) = NaN \<and>
   fst (probabilistic_get_prob
         (ProbabilisticRewireStrategy ex_g2 (edge_list ex_g2) ex_corr DegreeBlock True (list_rng []))
         (0, 1) (1, 0)) = numeric_limits_min \<and>
   fst (alias_get_prob
         (AliasProbabilisticRewireStrategy ex_g2 (edge_list ex_g2) ex_corr DegreeBlock True
            (list_rng []))
         (0, 1) (1, 0)) = numeric_limits_min \<and>
   a_sampler (AliasProbabilisticRewireStrategy ex_g2 (edge_list ex_g2) ex_corr DegreeBlock True
            (list_rng [])) (0, 1)
     = Some (Sampler [(1, 0), (0, 1)] [numeric_limits_min, Fin (1 / 2)])"
proof -
  have e: "ex_corr (0, 1) (1, 0) = NaN" "ex_corr (0, 1) (0, 1) = Fin (1 / 2)"
    by (simp_all add: ex_corr_def)
  have mem: "(0, 1) \<in> set (collect_blocks DegreeBlock ex_g2 (edge_list ex_g2))"
    "(1, 0) \<in> set (collect_blocks DegreeBlock ex_g2 (edge_list ex_g2))"
    by (simp_all add: ex_blocks)
  note inst = sanitized_probabilities[where x="1 / 2" and p=NaN and cache=True
      and s="(0, 1)" and t="(1, 0)" and bd=DegreeBlock and g=ex_g2 and edges="edge_list ex_g2"
      and corr_prob=ex_corr and rng="list_rng []"]
  have le: "(1 :: real) / 2 ^ 1022 \<le> 1" using inst one_is_normal by simp
  have n: "sanitize_prob NaN = numeric_limits_min" using inst by blast
  have h: "sanitize_prob (Fin (1 / 2)) = Fin (1 / 2)" using inst by simp
  have g1: "fst (probabilistic_get_prob
         (ProbabilisticRewireStrategy ex_g2 (edge_list ex_g2) ex_corr DegreeBlock True (list_rng []))
         (0, 1) (1, 0)) = numeric_limits_min"
    using inst mem e n by simp
  have g2: "fst (alias_get_prob
         (AliasProbabilisticRewireStrategy ex_g2 (edge_list ex_g2) ex_corr DegreeBlock True
            (list_rng []))
         (0, 1) (1, 0)) = numeric_limits_min"
    using inst mem e n by simp
  have g3: "a_sampler (AliasProbabilisticRewireStrategy ex_g2 (edge_list ex_g2) ex_corr DegreeBlock
            True (list_rng [])) (0, 1)
     = Some (Sampler [(1, 0), (0, 1)] [numeric_limits_min, Fin (1 / 2)])"
    using inst mem e n h by (simp add: ex_blocks)
  show ?thesis using one_is_normal le mem e(1) g1 g2 g3 by simp
qed

section \<open>The acceptance step\<close>

text \<open>
  The branches of the acceptance step of the Probabilistic and the Alias strategy, for
  every arithmetic of doubles: the candidate when \<^verbatim>\<open>pf >= pi\<close>; else the self-pair when
  \<^verbatim>\<open>pf == 0\<close>; else the candidate unless the uniform draw \<open>r\<close> exceeds
  \<^verbatim>\<open>exp(log(pf) - log(pi))\<close>.
\<close>

lemma accept_step_branches:
  "fst (accept_step fp ei ep p_i p_f rng) =
     (if d_ge p_f p_i then ep
      else if d_eq p_f (Fin 0) then (ei, False)
      else if d_less (fp_exp_log_diff fp p_f p_i) (fp_uniform_real fp (fst (rng_next rng)))
           then (ei, False) else ep)"
  by (simp add: accept_step_def Let_def split: prod.splits)

section \<open>A graph with one edge\<close>

lemma rewire_base_single_slot:
  assumes gf: "\<And>st ei et st1. gte st ei = Some (et, st1) \<Longrightarrow> s_g st1 = s_g st \<and> s_edges st1 = s_edges st"
    and uf: "\<And>i b st st1. upd i b st = Some st1 \<Longrightarrow> s_g st1 = s_g st \<and> s_edges st1 = s_edges st"
    and one: "length (s_edges st0) = 1"
    and res: "rewire_base gte upd st0 ei self_loops parallel_edges = Some (b, st')"
  shows "\<not> b \<and> s_g st' = s_g st0 \<and> s_edges st' = s_edges st0"
proof (cases b)
  case True
  have acc: "rewire_base gte upd st0 ei self_loops parallel_edges = Some (True, st')"
    using res True by simp
  from rewire_base_accept_swap[OF _ _ acc] gf uf
  obtain et where "ei \<noteq> fst et" "ei < length (s_edges st0)" "fst et < length (s_edges st0)"
    and "swap_target ei et (s_edges st0) (s_g st0) = Some (s_edges st', s_g st')"
    by blast
  then show ?thesis using one by simp
next
  case False
  have rej: "rewire_base gte upd st0 ei self_loops parallel_edges = Some (False, st')"
    using res False by simp
  from rewire_base_reject_frame[OF _ rej] gf
  have "s_g st' = s_g st0 \<and> s_edges st' = s_edges st0" by blast
  then show ?thesis using False by simp
qed

lemma probabilistic_gte_returns:
  assumes "ei < length (s_edges st)"
  shows "\<exists>et st1. probabilistic_get_target_edge fp st ei = Some (et, st1) \<and>
           fst et < length (s_edges st)"
proof -
  obtain epi r1 where u: "uniform_int 0 (length (s_edges st) - 1) (s_rng st) = (epi, r1)"
    by (cases "uniform_int 0 (length (s_edges st) - 1) (s_rng st)")
  have epi: "epi < length (s_edges st)" using uniform_int_le[OF u] assms by simp
  have "\<exists>et st1. probabilistic_get_target_edge fp st ei = Some (et, st1) \<and>
           (fst et = epi \<or> fst et = ei)"
    unfolding probabilistic_get_target_edge_def Let_def using assms u
    by (auto split: prod.splits dest!: accept_step_res)
  then show ?thesis using epi assms by auto
qed

lemma probabilistic_rewire_returns:
  assumes "ei < length (s_edges st)"
  shows "\<exists>b st'. probabilistic_rewire fp st ei self_loops parallel_edges = Some (b, st') \<and>
           length (s_edges st') = length (s_edges st)"
proof -
  obtain et st1 where g: "probabilistic_get_target_edge fp st ei = Some (et, st1)"
    and f: "fst et < length (s_edges st)"
    using probabilistic_gte_returns[OF assms] by blast
  have e: "s_edges st1 = s_edges st" using probabilistic_gte_frame[OF g] by blast
  have r: "ei < length (s_edges st1)" "fst et < length (s_edges st1)"
    using assms f e by simp_all
  have upd: "\<forall>i b s. probabilistic_update_edge i b s = Some s"
    by (simp add: probabilistic_update_edge_def)
  from rewire_base_returns[where gte="probabilistic_get_target_edge fp"
      and upd=probabilistic_update_edge
      and self_loops=self_loops and parallel_edges=parallel_edges, OF g r upd]
  show ?thesis unfolding probabilistic_rewire_def e by simp
qed

text \<open>
  The buckets of the Correlated strategy list every slot, unflipped, under the degree
  pair of its target, so the bucket \<^verbatim>\<open>get_target_edge\<close> draws from is not empty.
\<close>

definition correlated_complete :: "correlated_state \<Rightarrow> bool" where
  "correlated_complete st =
     (\<forall>i < length (s_edges st).
        (i, False) \<in> set (edges_by_target st
                            (DegreeBlock (target (s_edges st ! i) (s_g st)) (s_g st))))"

lemma correlated_index_edge_grows:
  "set (ebt b) \<subseteq> set (correlated_index_edge g edges ebt n b)"
  by (auto simp: correlated_index_edge_def Let_def)

lemma correlated_index_edge_adds:
  "(n, False) \<in> set (correlated_index_edge g edges ebt n (DegreeBlock (target (edges ! n) g) g))"
  by (auto simp: correlated_index_edge_def Let_def DegreeBlock_def)

lemma correlated_index_complete:
  "\<forall>i < n. (i, False) \<in> set (foldl (correlated_index_edge g edges) (\<lambda>_. []) [0..<n]
                              (DegreeBlock (target (edges ! i) g) g))"
proof (induction n)
  case 0
  show ?case by simp
next
  case (Suc n)
  show ?case
  proof (intro allI impI)
    fix i assume "i < Suc n"
    then consider "i < n" | "i = n" by linarith
    then show "(i, False) \<in> set (foldl (correlated_index_edge g edges) (\<lambda>_. []) [0..<Suc n]
                              (DegreeBlock (target (edges ! i) g) g))"
    proof cases
      case 1
      then show ?thesis using Suc correlated_index_edge_grows by (simp, blast)
    next
      case 2
      then show ?thesis using correlated_index_edge_adds by simp
    qed
  qed
qed

lemma CorrelatedRewireStrategy_complete:
  "correlated_complete (CorrelatedRewireStrategy g edges corr_prob blockdeg cache rng)"
  using correlated_index_complete[of "length edges" g edges]
  by (simp add: correlated_complete_def CorrelatedRewireStrategy_def)

lemma correlated_rewire_returns:
  assumes ok: "correlated_ok st" and co: "correlated_complete st" and ei: "ei < length (s_edges st)"
  shows "\<exists>b st'. correlated_rewire st ei self_loops parallel_edges = Some (b, st') \<and>
           length (s_edges st') = length (s_edges st)"
proof -
  let ?b = "DegreeBlock (target (s_edges st ! ei) (s_g st)) (s_g st)"
  let ?el = "edges_by_target st ?b"
  have ne: "?el \<noteq> []" using co ei unfolding correlated_complete_def by fastforce
  obtain i r1 where u: "uniform_int 0 (length ?el - 1) (s_rng st) = (i, r1)"
    by (cases "uniform_int 0 (length ?el - 1) (s_rng st)")
  have g: "correlated_get_target_edge st ei = Some (?el ! i, st\<lparr>s_rng := r1\<rparr>)"
    using ei ne u unfolding correlated_get_target_edge_def Let_def DegreeBlock_def by simp
  have "?el ! i \<in> set ?el" using correlated_gte_bucket[OF g] by blast
  then have f: "fst (?el ! i) < length (s_edges st)" using ok unfolding correlated_ok_def by blast
  have r: "ei < length (s_edges (st\<lparr>s_rng := r1\<rparr>))"
    "fst (?el ! i) < length (s_edges (st\<lparr>s_rng := r1\<rparr>))"
    using ei f by simp_all
  have upd: "\<forall>i b s. correlated_update_edge i b s = Some s"
    by (simp add: correlated_update_edge_def)
  from rewire_base_returns[where gte=correlated_get_target_edge and upd=correlated_update_edge
      and self_loops=self_loops and parallel_edges=parallel_edges, OF g r upd]
  show ?thesis unfolding correlated_rewire_def by simp
qed

lemma sweep_loop_all_rejected:
  assumes rngI: "\<forall>st r. I st \<longrightarrow> I (st\<lparr>s_rng := r\<rparr>)"
    and step: "\<forall>st ei. I st \<and> ei < m \<longrightarrow> (\<exists>st'. rw st ei sl pe = Some (False, st') \<and> I st')"
  shows "I (d_rewire d) \<Longrightarrow> i + k = length (d_edge_pos d) \<Longrightarrow>
         mset (d_edge_pos d) = mset [0..<m] \<Longrightarrow>
         \<exists>d'. sweep_loop rw sl pe False no_sweep i k d = Some d' \<and> I (d_rewire d') \<and>
              mset (d_edge_pos d') = mset [0..<m] \<and>
              d_pcount d' = d_pcount d + (if no_sweep then min 1 k else k)"
proof (induction k arbitrary: i d)
  case 0
  then show ?case by simp
next
  case (Suc k)
  let ?p = "d_edge_pos d"
  have i: "i < length ?p" using Suc.prems(2) by simp
  obtain pos r where ps: "random_permutation_step i ?p (s_rng (d_rewire d)) = (pos, r)"
    by (cases "random_permutation_step i ?p (s_rng (d_rewire d))")
  note pp = random_permutation_step_props[OF i ps]
  have mp: "mset pos = mset [0..<m]" using pp Suc.prems(3) by simp
  have ei: "pos ! i < m" using perm_upt_nth[OF mp] i pp by simp
  have I1: "I ((d_rewire d)\<lparr>s_rng := r\<rparr>)" using rngI Suc.prems(1) by blast
  obtain st where rw: "rw ((d_rewire d)\<lparr>s_rng := r\<rparr>) (pos ! i) sl pe = Some (False, st)"
    and I2: "I st"
    using step I1 ei by blast
  define d1 where "d1 = d\<lparr>d_rewire := st, d_edge_pos := pos, d_pcount := d_pcount d + 1\<rparr>"
  have unf: "sweep_loop rw sl pe False no_sweep i (Suc k) d =
               (if no_sweep then Some d1 else sweep_loop rw sl pe False no_sweep (Suc i) k d1)"
    using ps rw by (simp add: Let_def persist_loop_once d1_def)
  have a1: "I (d_rewire d1)" using I2 by (simp add: d1_def)
  have a2: "Suc i + k = length (d_edge_pos d1)" using Suc.prems(2) pp by (simp add: d1_def)
  have a3: "mset (d_edge_pos d1) = mset [0..<m]" using mp by (simp add: d1_def)
  have pc: "d_pcount d1 = d_pcount d + 1" by (simp add: d1_def)
  show ?case
  proof (cases no_sweep)
    case True
    then show ?thesis using unf a1 a3 pc by simp
  next
    case False
    then show ?thesis using unf Suc.IH[OF a1 a2 a3] pc by auto
  qed
qed

lemma iter_loop_all_rejected:
  assumes rngI: "\<forall>st r. I st \<longrightarrow> I (st\<lparr>s_rng := r\<rparr>)"
    and step: "\<forall>st ei. I st \<and> ei < m \<longrightarrow> (\<exists>st'. rw st ei sl pe = Some (False, st') \<and> I st')"
  shows "I (d_rewire d) \<Longrightarrow> mset (d_edge_pos d) = mset [0..<m] \<Longrightarrow>
         \<exists>d'. iter_loop rw sl pe False no_sweep n d = Some d' \<and>
              d_pcount d' = d_pcount d + n * (if no_sweep then min 1 m else m)"
proof (induction n arbitrary: d)
  case 0
  show ?case by simp
next
  case (Suc n)
  have len: "length (d_edge_pos d) = m"
    using Suc.prems(2) by (metis size_mset length_upt diff_zero)
  have l: "0 + length (d_edge_pos d) = length (d_edge_pos d)" by simp
  from sweep_loop_all_rejected[where I=I and rw=rw and sl=sl and pe=pe and m=m and d=d and i=0
      and k="length (d_edge_pos d)" and no_sweep=no_sweep, OF rngI step Suc.prems(1) l Suc.prems(2)]
  obtain d1 where s: "sweep_loop rw sl pe False no_sweep 0 (length (d_edge_pos d)) d = Some d1"
    and I1: "I (d_rewire d1)" and m1: "mset (d_edge_pos d1) = mset [0..<m]"
    and p1: "d_pcount d1 = d_pcount d + (if no_sweep then min 1 m else m)"
    unfolding len by auto
  from Suc.IH[OF I1 m1] obtain d' where
    "iter_loop rw sl pe False no_sweep n d1 = Some d'"
    "d_pcount d' = d_pcount d1 + n * (if no_sweep then min 1 m else m)"
    by blast
  then show ?case using s p1 by simp
qed

lemma graph_rewire_all_rejected:
  assumes rngI: "\<forall>st r. I st \<longrightarrow> I (st\<lparr>s_rng := r\<rparr>)"
    and step: "\<forall>st ei. I st \<and> ei < length (edge_list g) \<longrightarrow>
                 (\<exists>st'. rewire st ei self_loops parallel_edges = Some (False, st') \<and> I st')"
    and I0: "I (ctor g (edge_list g) corr_prob bd cache rng)"
    and one: "length (edge_list g) = 1"
  shows "\<exists>d. graph_rewire ctor rewire g corr_prob self_loops parallel_edges (k, no_sweep)
               (False, cache, verbose) rng bd = Some d \<and> d_pcount d = k"
proof -
  let ?m = "length (edge_list g)"
  let ?d0 = "\<lparr>d_rewire = ctor g (edge_list g) corr_prob bd cache rng, d_edge_pos = [0..<?m],
              d_pcount = 0\<rparr>"
  have I0': "I (d_rewire ?d0)" using I0 by simp
  have m0: "mset (d_edge_pos ?d0) = mset [0..<?m]" by simp
  from iter_loop_all_rejected[where I=I and rw=rewire and sl=self_loops and pe=parallel_edges
      and m="?m" and d="?d0" and no_sweep=no_sweep and n=k, OF rngI step I0' m0]
  obtain d where "iter_loop rewire self_loops parallel_edges False no_sweep k ?d0 = Some d"
    and "d_pcount d = k * (if no_sweep then min 1 ?m else ?m)"
    by auto
  then show ?thesis using one by (simp add: graph_rewire_def Let_def)
qed

lemma correlated_ok_rng [simp]: "correlated_ok (st\<lparr>s_rng := r\<rparr>) = correlated_ok st"
  by (simp add: correlated_ok_def)

lemma correlated_complete_rng [simp]:
  "correlated_complete (st\<lparr>s_rng := r\<rparr>) = correlated_complete st"
  by (simp add: correlated_complete_def)

text \<open>
  On a graph with exactly one edge the Random, the Correlated and the Probabilistic
  strategy reject every proposal, and without persistence the driver ends with
  \<^verbatim>\<open>pcount = n_iter\<close>, with and without \<^verbatim>\<open>no_sweep\<close>.
\<close>

lemma single_edge_all_rejected:
  assumes gok: "graph_ok g" and one: "length (edge_list g) = 1"
  shows "(\<exists>d. graph_rewire RandomRewireStrategy random_rewire g corr_prob self_loops
               parallel_edges (k, no_sweep) (False, cache, verbose) rng bd = Some d \<and>
             d_pcount d = k) \<and>
         (\<exists>d. graph_rewire CorrelatedRewireStrategy correlated_rewire g corr_prob self_loops
               parallel_edges (k, no_sweep) (False, cache, verbose) rng bd = Some d \<and>
             d_pcount d = k) \<and>
         (\<exists>d. graph_rewire ProbabilisticRewireStrategy (probabilistic_rewire fp) g corr_prob
               self_loops parallel_edges (k, no_sweep) (False, cache, verbose) rng bd = Some d \<and>
             d_pcount d = k)"
proof (intro conjI)
  define I :: "base_state \<Rightarrow> bool" where "I = (\<lambda>st. length (s_edges st) = 1)"
  have Ir: "\<forall>st r. I st \<longrightarrow> I (st\<lparr>s_rng := r\<rparr>)" by (simp add: I_def)
  have Is: "\<forall>st ei. I st \<and> ei < length (edge_list g) \<longrightarrow>
                 (\<exists>st'. random_rewire st ei self_loops parallel_edges = Some (False, st') \<and> I st')"
  proof (intro allI impI)
    fix st :: base_state and ei assume a: "I st \<and> ei < length (edge_list g)"
    then have l: "length (s_edges st) = 1" and ei: "ei < length (s_edges st)"
      using one by (simp_all add: I_def)
    obtain b st' where r: "random_rewire st ei self_loops parallel_edges = Some (b, st')"
      using random_rewire_returns[OF ei] by blast
    from rewire_base_single_slot[OF _ _ l r[unfolded random_rewire_def]]
      random_gte_frame random_upd_frame
    have "\<not> b \<and> s_g st' = s_g st \<and> s_edges st' = s_edges st" by blast
    then show "\<exists>st'. random_rewire st ei self_loops parallel_edges = Some (False, st') \<and> I st'"
      using r l by (auto simp: I_def)
  qed
  have I0: "I (RandomRewireStrategy g (edge_list g) corr_prob bd cache rng)"
    using one by (simp add: I_def RandomRewireStrategy_def)
  show "\<exists>d. graph_rewire RandomRewireStrategy random_rewire g corr_prob self_loops
               parallel_edges (k, no_sweep) (False, cache, verbose) rng bd = Some d \<and>
             d_pcount d = k"
    by (rule graph_rewire_all_rejected[where I=I and rewire=random_rewire and ctor=RandomRewireStrategy
          and g=g and self_loops=self_loops and parallel_edges=parallel_edges
          and corr_prob=corr_prob and bd=bd and cache=cache and rng=rng, OF Ir Is I0 one])
next
  define I :: "correlated_state \<Rightarrow> bool" where
    "I = (\<lambda>st. correlated_ok st \<and> correlated_complete st \<and> length (s_edges st) = 1)"
  have Ir: "\<forall>st r. I st \<longrightarrow> I (st\<lparr>s_rng := r\<rparr>)"
    by (simp add: I_def)
  have Is: "\<forall>st ei. I st \<and> ei < length (edge_list g) \<longrightarrow>
                 (\<exists>st'. correlated_rewire st ei self_loops parallel_edges = Some (False, st') \<and> I st')"
  proof (intro allI impI)
    fix st :: correlated_state and ei assume a: "I st \<and> ei < length (edge_list g)"
    then have ok: "correlated_ok st" and co: "correlated_complete st"
      and l: "length (s_edges st) = 1" and ei: "ei < length (s_edges st)"
      using one by (simp_all add: I_def)
    obtain b st' where r: "correlated_rewire st ei self_loops parallel_edges = Some (b, st')"
      using correlated_rewire_returns[OF ok co ei] by blast
    from rewire_base_single_slot[OF _ _ l r[unfolded correlated_rewire_def]]
      correlated_gte_frame correlated_upd_frame
    have nb: "\<not> b" by blast
    then have r': "correlated_rewire st ei self_loops parallel_edges = Some (False, st')"
      using r by simp
    from correlated_reject[OF ok r'] have ok': "correlated_ok st'"
      and fr: "s_g st' = s_g st" "s_edges st' = s_edges st" by simp_all
    have bk: "edges_by_target st' = edges_by_target st" by (rule correlated_rewire_buckets[OF r'])
    have co': "correlated_complete st'" using co unfolding correlated_complete_def fr bk .
    show "\<exists>st'. correlated_rewire st ei self_loops parallel_edges = Some (False, st') \<and> I st'"
      using r' ok' co' l fr by (auto simp: I_def)
  qed
  have l0: "length (s_edges (CorrelatedRewireStrategy g (edge_list g) corr_prob bd cache rng)) = 1"
    using one by (simp add: CorrelatedRewireStrategy_def)
  have I0: "I (CorrelatedRewireStrategy g (edge_list g) corr_prob bd cache rng)"
    unfolding I_def
    using l0 CorrelatedRewireStrategy_ok[OF table_ok_initial[OF gok]]
      CorrelatedRewireStrategy_complete
    by blast
  show "\<exists>d. graph_rewire CorrelatedRewireStrategy correlated_rewire g corr_prob self_loops
               parallel_edges (k, no_sweep) (False, cache, verbose) rng bd = Some d \<and>
             d_pcount d = k"
    by (rule graph_rewire_all_rejected[where I=I and rewire=correlated_rewire and ctor=CorrelatedRewireStrategy
          and g=g and self_loops=self_loops and parallel_edges=parallel_edges
          and corr_prob=corr_prob and bd=bd and cache=cache and rng=rng, OF Ir Is I0 one])
next
  define I :: "'a probabilistic_state \<Rightarrow> bool" where "I = (\<lambda>st. length (s_edges st) = 1)"
  have Ir: "\<forall>st r. I st \<longrightarrow> I (st\<lparr>s_rng := r\<rparr>)" by (simp add: I_def)
  have Is: "\<forall>st ei. I st \<and> ei < length (edge_list g) \<longrightarrow>
                 (\<exists>st'. probabilistic_rewire fp st ei self_loops parallel_edges = Some (False, st')
                        \<and> I st')"
  proof (intro allI impI)
    fix st :: "'a probabilistic_state" and ei assume a: "I st \<and> ei < length (edge_list g)"
    then have l: "length (s_edges st) = 1" and ei: "ei < length (s_edges st)"
      using one by (simp_all add: I_def)
    obtain b st' where r: "probabilistic_rewire fp st ei self_loops parallel_edges = Some (b, st')"
      using probabilistic_rewire_returns[OF ei] by blast
    from rewire_base_single_slot[OF _ _ l r[unfolded probabilistic_rewire_def]]
      probabilistic_gte_frame probabilistic_upd_frame
    have "\<not> b \<and> s_g st' = s_g st \<and> s_edges st' = s_edges st" by blast
    then show "\<exists>st'. probabilistic_rewire fp st ei self_loops parallel_edges = Some (False, st')
                 \<and> I st'"
      using r l by (auto simp: I_def)
  qed
  have I0: "I (ProbabilisticRewireStrategy g (edge_list g) corr_prob bd cache rng)"
    using one by (simp add: I_def ProbabilisticRewireStrategy_def)
  show "\<exists>d. graph_rewire ProbabilisticRewireStrategy (probabilistic_rewire fp) g corr_prob
               self_loops parallel_edges (k, no_sweep) (False, cache, verbose) rng bd = Some d \<and>
             d_pcount d = k"
    by (rule graph_rewire_all_rejected[where I=I and rewire="probabilistic_rewire fp" and ctor=ProbabilisticRewireStrategy
          and g=g and self_loops=self_loops and parallel_edges=parallel_edges
          and corr_prob=corr_prob and bd=bd and cache=cache and rng=rng, OF Ir Is I0 one])
qed

section \<open>Persistence\<close>

text \<open>
  With \<open>persist\<close> the driver repeats a rejected proposal until one is accepted
  (\<open>do ... while (persist && !success)\<close>).  When no proposal on the slot can ever be
  accepted the loop does not return; the graph with one edge is such an input.
\<close>

lemma persist_loop_never_returns:
  assumes r: "persist_loop step p st = Some y"
  shows "p \<longrightarrow> (\<forall>s. I s \<longrightarrow> (\<exists>s'. step s = Some (False, s') \<and> I s')) \<longrightarrow> I st \<longrightarrow> False"
proof (rule persist_loop.raw_induct[where P="\<lambda>step p st y.
          p \<longrightarrow> (\<forall>s. I s \<longrightarrow> (\<exists>s'. step s = Some (False, s') \<and> I s')) \<longrightarrow> I st \<longrightarrow> False",
        OF _ r])
  fix pl :: "('a \<Rightarrow> (bool \<times> 'a) option) \<Rightarrow> bool \<Rightarrow> 'a \<Rightarrow> (bool \<times> 'a) option"
    and step persist st res
  assume ih: "\<And>step persist st y. pl step persist st = Some y \<Longrightarrow>
          persist \<longrightarrow> (\<forall>s. I s \<longrightarrow> (\<exists>s'. step s = Some (False, s') \<and> I s')) \<longrightarrow> I st \<longrightarrow> False"
    and body: "(case step st of None \<Rightarrow> None
      | Some (success, st') \<Rightarrow>
          if persist \<and> \<not> success then pl step persist st' else Some (success, st')) = Some res"
  show "persist \<longrightarrow> (\<forall>s. I s \<longrightarrow> (\<exists>s'. step s = Some (False, s') \<and> I s')) \<longrightarrow> I st \<longrightarrow> False"
  proof (intro impI)
    assume pp: persist and inv: "\<forall>s. I s \<longrightarrow> (\<exists>s'. step s = Some (False, s') \<and> I s')"
      and ist: "I st"
    obtain s' where s: "step st = Some (False, s')" and i': "I s'" using inv ist by blast
    have "pl step persist s' = Some res" using body s pp by simp
    from ih[OF this] pp inv i' show False by blast
  qed
qed

lemma persist_loop_diverges:
  assumes "\<forall>s. I s \<longrightarrow> (\<exists>s'. step s = Some (False, s') \<and> I s')" and "I st"
  shows "persist_loop step True st = None"
proof (cases "persist_loop step True st")
  case None
  then show ?thesis .
next
  case (Some y)
  from persist_loop_never_returns[OF Some, of I] assms show ?thesis by blast
qed

lemma random_single_edge_step:
  assumes l: "length (s_edges st) = 1" and ei: "ei < 1"
  shows "\<exists>st'. random_rewire st ei self_loops parallel_edges = Some (False, st') \<and>
               length (s_edges st') = 1"
proof -
  have ei': "ei < length (s_edges st)" using l ei by simp
  obtain b st' where r: "random_rewire st ei self_loops parallel_edges = Some (b, st')"
    using random_rewire_returns[OF ei'] by blast
  from rewire_base_single_slot[OF _ _ l r[unfolded random_rewire_def]]
    random_gte_frame random_upd_frame
  have "\<not> b \<and> s_g st' = s_g st \<and> s_edges st' = s_edges st" by blast
  then show ?thesis using r l by auto
qed

lemma ex_g1_persist_diverges:
  "graph_rewire RandomRewireStrategy random_rewire ex_g1 corr_one False False (1, True)
       (True, False, False) (list_rng []) DegreeBlock = None"
proof -
  define I :: "base_state \<Rightarrow> bool" where "I = (\<lambda>st. length (s_edges st) = 1)"
  have inv: "\<forall>s. I s \<longrightarrow> (\<exists>s'. random_rewire s 0 False False = Some (False, s') \<and> I s')"
    unfolding I_def by (intro allI impI random_single_edge_step) simp_all
  have i0: "I \<lparr>s_g = ex_g1, s_edges = edge_list ex_g1, s_rng = list_rng []\<rparr>"
    by (simp add: I_def ex_g1_def)
  have d: "persist_loop (\<lambda>st. random_rewire st 0 False False) True
             \<lparr>s_g = ex_g1, s_edges = edge_list ex_g1, s_rng = list_rng []\<rparr> = None"
    by (rule persist_loop_diverges[where I=I, OF inv i0])
  show ?thesis
    using d
    by (simp add: graph_rewire_def RandomRewireStrategy_def random_permutation_step_def
          uniform_int_def ex_g1_def)
qed

section \<open>The buckets of the Correlated strategy\<close>

text \<open>
  The bucket the Correlated strategy is meant to keep under a degree pair \<open>d\<close>: the edge
  orientations whose target has the degree pair \<open>d\<close>, in the order of the slots, the
  unflipped orientation of a slot before the flipped one; a directed graph has the
  unflipped orientations only.
\<close>

definition orientations :: "graph \<Rightarrow> edge_t list \<Rightarrow> edge_ref list" where
  "orientations g edges =
     concat (map (\<lambda>i. if directed g then [(i, False)] else [(i, False), (i, True)])
                 [0..<length edges])"

definition target_bucket :: "graph \<Rightarrow> edge_t list \<Rightarrow> nat \<times> nat \<Rightarrow> edge_ref list" where
  "target_bucket g edges d =
     filter (\<lambda>r. DegreeBlock (target_ep r edges g) g = d) (orientations g edges)"

definition correlated_exact :: "correlated_state \<Rightarrow> bool" where
  "correlated_exact st =
     (table_ok (s_g st) (s_edges st) \<and>
      edges_by_target st = target_bucket (s_g st) (s_edges st))"

lemma correlated_index_buckets:
  "foldl (correlated_index_edge g edges) (\<lambda>_. []) [0..<n] =
     (\<lambda>d. filter (\<lambda>r. DegreeBlock (target_ep r edges g) g = d)
             (concat (map (\<lambda>i. if directed g then [(i, False)] else [(i, False), (i, True)])
                          [0..<n])))"
proof (induction n)
  case 0
  show ?case by simp
next
  case (Suc n)
  show ?case
    unfolding upt_Suc_append[OF le0] foldl_append Suc
    by (rule ext)
       (simp add: correlated_index_edge_def Let_def DegreeBlock_def target_ep_def)
qed

lemma CorrelatedRewireStrategy_buckets:
  "edges_by_target (CorrelatedRewireStrategy g edges corr_prob blockdeg cache rng)
     = target_bucket g edges"
  unfolding CorrelatedRewireStrategy_def
  by (rule ext) (simp add: correlated_index_buckets target_bucket_def orientations_def)

lemma set_orientations:
  "r \<in> set (orientations g edges) \<longleftrightarrow> fst r < length edges \<and> (directed g \<longrightarrow> \<not> snd r)"
  unfolding orientations_def by (cases r) auto

lemma target_bucket_iff:
  "r \<in> set (target_bucket g edges d) \<longleftrightarrow>
     fst r < length edges \<and> (directed g \<longrightarrow> \<not> snd r) \<and>
     DegreeBlock (target_ep r edges g) g = d"
  unfolding target_bucket_def by (auto simp: set_orientations)

lemma correlated_exact_ok:
  assumes "correlated_exact st"
  shows "correlated_ok st"
  using assms unfolding correlated_exact_def correlated_ok_def
  by (simp add: target_bucket_iff)

lemma correlated_exact_draw:
  assumes ex: "correlated_exact st" and ei: "ei < length (s_edges st)"
  shows "\<exists>i r. uniform_int 0
            (length (target_bucket (s_g st) (s_edges st)
                       (DegreeBlock (target (s_edges st ! ei) (s_g st)) (s_g st))) - 1)
            (s_rng st) = (i, r) \<and>
          i < length (target_bucket (s_g st) (s_edges st)
                       (DegreeBlock (target (s_edges st ! ei) (s_g st)) (s_g st))) \<and>
          correlated_get_target_edge st ei
            = Some (target_bucket (s_g st) (s_edges st)
                       (DegreeBlock (target (s_edges st ! ei) (s_g st)) (s_g st)) ! i,
                    st\<lparr>s_rng := r\<rparr>)"
proof -
  let ?b = "DegreeBlock (target (s_edges st ! ei) (s_g st)) (s_g st)"
  let ?B = "target_bucket (s_g st) (s_edges st) ?b"
  have eb: "edges_by_target st ?b = ?B" using ex unfolding correlated_exact_def by simp
  have "(ei, False) \<in> set ?B" using ei by (simp add: target_bucket_iff target_ep_def)
  then have ne: "?B \<noteq> []" by auto
  obtain i r where u: "uniform_int 0 (length ?B - 1) (s_rng st) = (i, r)"
    by (cases "uniform_int 0 (length ?B - 1) (s_rng st)")
  have i: "i < length ?B" using uniform_int_le[OF u] ne by (cases ?B) auto
  have "correlated_get_target_edge st ei = Some (?B ! i, st\<lparr>s_rng := r\<rparr>)"
    using ei ne u eb unfolding correlated_get_target_edge_def Let_def DegreeBlock_def by simp
  then show ?thesis using u i by blast
qed

lemma correlated_exact_step:
  assumes ex: "correlated_exact cst"
    and rw: "correlated_rewire cst ei self_loops parallel_edges = Some (b, cst')"
  shows "correlated_exact cst' \<and>
         edge_blocks DegreeBlock (s_g cst') = edge_blocks DegreeBlock (s_g cst)"
proof (cases b)
  case False
  have rej: "correlated_rewire cst ei self_loops parallel_edges = Some (False, cst')"
    using rw False by simp
  from correlated_reject[OF correlated_exact_ok[OF ex] rej]
  have fr: "s_g cst' = s_g cst" "s_edges cst' = s_edges cst" by simp_all
  have bk: "edges_by_target cst' = edges_by_target cst" by (rule correlated_rewire_buckets[OF rw])
  show ?thesis using ex unfolding correlated_exact_def fr bk by simp
next
  case True
  have cok: "correlated_ok cst" by (rule correlated_exact_ok[OF ex])
  have acc: "correlated_rewire cst ei self_loops parallel_edges = Some (True, cst')"
    using rw True by simp
  have acc': "rewire_base correlated_get_target_edge correlated_update_edge cst ei
       self_loops parallel_edges = Some (True, cst')"
    using acc by (simp add: correlated_rewire_def)
  have ok: "table_ok (s_g cst) (s_edges cst)" using ex unfolding correlated_exact_def by blast
  from rewire_base_accept_swap[OF _ _ acc'] correlated_gte_frame correlated_upd_frame
  obtain et st where g: "correlated_get_target_edge cst ei = Some (et, st)"
    and ne: "ei \<noteq> fst et" and r: "ei < length (s_edges cst)" "fst et < length (s_edges cst)"
    and sw: "swap_target ei et (s_edges cst) (s_g cst) = Some (s_edges cst', s_g cst')"
    by blast
  have d: "directed (s_g cst) \<longrightarrow> \<not> snd et" by (rule correlated_gte_unflipped[OF cok g])
  have sd: "same_degrees (s_g cst) (s_g cst')" by (rule swap_same_degrees[OF ok ne r d sw])
  have inv: "\<And>v. DegreeBlock v (s_g cst') = DegreeBlock v (s_g cst)"
    by (rule DegreeBlock_same_degrees[OF sd])
  have same: "DegreeBlock (target_ep et (s_edges cst) (s_g cst)) (s_g cst)
            = DegreeBlock (target (s_edges cst ! ei) (s_g cst)) (s_g cst)"
    using cok correlated_gte_bucket[OF g] unfolding correlated_ok_def by blast
  have len: "length (s_edges cst') = length (s_edges cst)"
    and dir: "directed (s_g cst') = directed (s_g cst)"
    using swap_target_shape[OF ne r sw] by blast+
  have ok': "table_ok (s_g cst') (s_edges cst')" by (rule swap_target_table_ok[OF ok ne r sw])
  have bk: "edges_by_target cst' = edges_by_target cst" by (rule correlated_rewire_buckets[OF acc])
  have ori: "orientations (s_g cst') (s_edges cst') = orientations (s_g cst) (s_edges cst)"
    by (simp add: orientations_def len dir)
  have tb: "target_bucket (s_g cst') (s_edges cst') = target_bucket (s_g cst) (s_edges cst)"
  proof (rule ext)
    fix dd
    show "target_bucket (s_g cst') (s_edges cst') dd = target_bucket (s_g cst) (s_edges cst) dd"
      unfolding target_bucket_def ori
    proof (rule filter_cong[OF refl])
      fix x assume "x \<in> set (orientations (s_g cst) (s_edges cst))"
      then have x: "fst x < length (s_edges cst)" by (simp add: set_orientations)
      have "DegreeBlock (target_ep (fst x, snd x) (s_edges cst') (s_g cst')) (s_g cst')
          = DegreeBlock (target_ep (fst x, snd x) (s_edges cst) (s_g cst)) (s_g cst)"
        by (rule swap_target_ep_blocks[OF ne r sw inv same x])
      then show "(DegreeBlock (target_ep x (s_edges cst') (s_g cst')) (s_g cst') = dd)
          = (DegreeBlock (target_ep x (s_edges cst) (s_g cst)) (s_g cst) = dd)"
        by simp
    qed
  qed
  have "correlated_exact cst'"
    using ex ok' unfolding correlated_exact_def bk tb by simp
  moreover have "edge_blocks DegreeBlock (s_g cst') = edge_blocks DegreeBlock (s_g cst)"
    using correlated_accept[OF cok acc] by blast
  ultimately show ?thesis by blast
qed

text \<open>
  Claim C4, as amended. The Correlated strategy files and draws by the degree pair of
  the target, whatever block abstraction it is constructed with. The constructor's
  bucket of a degree pair is exactly the list of the edge orientations whose target
  has that degree pair. On such buckets \<^verbatim>\<open>get_target_edge(ei)\<close> returns, for every slot
  \<open>ei\<close> of the table, the entry at a uniformly drawn index of the bucket of the degree
  pair of the target of \<open>edges[ei]\<close>, so an orientation whose target has that degree
  pair. Every move keeps the buckets exact and keeps the multiset of the pairs (degree
  pair of the source, degree pair of the target) over the edges.
\<close>

theorem correlated_degree_buckets:
  "edges_by_target (CorrelatedRewireStrategy g edges corr_prob blockdeg cache rng)
     = target_bucket g edges \<and>
   (r \<in> set (target_bucket g edges d) \<longleftrightarrow>
      fst r < length edges \<and> (directed g \<longrightarrow> \<not> snd r) \<and>
      DegreeBlock (target_ep r edges g) g = d) \<and>
   (table_ok g edges \<longrightarrow>
      correlated_exact (CorrelatedRewireStrategy g edges corr_prob blockdeg cache rng)) \<and>
   (correlated_exact cst \<and> ei < length (s_edges cst) \<longrightarrow>
      (\<exists>i r'. uniform_int 0
                 (length (target_bucket (s_g cst) (s_edges cst)
                            (DegreeBlock (target (s_edges cst ! ei) (s_g cst)) (s_g cst))) - 1)
                 (s_rng cst) = (i, r') \<and>
               i < length (target_bucket (s_g cst) (s_edges cst)
                            (DegreeBlock (target (s_edges cst ! ei) (s_g cst)) (s_g cst))) \<and>
               correlated_get_target_edge cst ei
                 = Some (target_bucket (s_g cst) (s_edges cst)
                            (DegreeBlock (target (s_edges cst ! ei) (s_g cst)) (s_g cst)) ! i,
                         cst\<lparr>s_rng := r'\<rparr>) \<and>
               DegreeBlock (target_ep
                     (target_bucket (s_g cst) (s_edges cst)
                        (DegreeBlock (target (s_edges cst ! ei) (s_g cst)) (s_g cst)) ! i)
                     (s_edges cst) (s_g cst)) (s_g cst)
                 = DegreeBlock (target (s_edges cst ! ei) (s_g cst)) (s_g cst))) \<and>
   (correlated_exact cst \<and>
      correlated_rewire cst ei self_loops parallel_edges = Some (b, cst') \<longrightarrow>
      correlated_exact cst' \<and>
      edge_blocks DegreeBlock (s_g cst') = edge_blocks DegreeBlock (s_g cst))"
proof (intro conjI impI)
  show "edges_by_target (CorrelatedRewireStrategy g edges corr_prob blockdeg cache rng)
     = target_bucket g edges"
    by (rule CorrelatedRewireStrategy_buckets)
next
  show "r \<in> set (target_bucket g edges d) \<longleftrightarrow>
      fst r < length edges \<and> (directed g \<longrightarrow> \<not> snd r) \<and>
      DegreeBlock (target_ep r edges g) g = d"
    by (rule target_bucket_iff)
next
  assume "table_ok g edges"
  then show "correlated_exact (CorrelatedRewireStrategy g edges corr_prob blockdeg cache rng)"
    unfolding correlated_exact_def CorrelatedRewireStrategy_buckets
    by (simp add: CorrelatedRewireStrategy_def)
next
  let ?b = "DegreeBlock (target (s_edges cst ! ei) (s_g cst)) (s_g cst)"
  let ?B = "target_bucket (s_g cst) (s_edges cst) ?b"
  assume a: "correlated_exact cst \<and> ei < length (s_edges cst)"
  from correlated_exact_draw[of cst ei] a obtain i r' where
    u: "uniform_int 0 (length ?B - 1) (s_rng cst) = (i, r')" and i: "i < length ?B"
    and g: "correlated_get_target_edge cst ei = Some (?B ! i, cst\<lparr>s_rng := r'\<rparr>)"
    by blast
  have "?B ! i \<in> set ?B" using i by simp
  then have "DegreeBlock (target_ep (?B ! i) (s_edges cst) (s_g cst)) (s_g cst) = ?b"
    unfolding target_bucket_iff by blast
  then show "\<exists>i r'. uniform_int 0 (length ?B - 1) (s_rng cst) = (i, r') \<and> i < length ?B \<and>
               correlated_get_target_edge cst ei = Some (?B ! i, cst\<lparr>s_rng := r'\<rparr>) \<and>
               DegreeBlock (target_ep (?B ! i) (s_edges cst) (s_g cst)) (s_g cst) = ?b"
    using u i g by blast
next
  assume a: "correlated_exact cst \<and>
      correlated_rewire cst ei self_loops parallel_edges = Some (b, cst')"
  from correlated_exact_step[of cst ei self_loops parallel_edges b cst'] a
  show "correlated_exact cst'"
    and "edge_blocks DegreeBlock (s_g cst') = edge_blocks DegreeBlock (s_g cst)"
    by blast+
qed

theorem correlated_degree_buckets_witness:
  "table_ok ex_u2 (edge_list ex_u2) \<and>
   correlated_exact
     (CorrelatedRewireStrategy ex_u2 (edge_list ex_u2) corr_one DegreeBlock False (list_rng [1])) \<and>
   edges_by_target
     (CorrelatedRewireStrategy ex_u2 (edge_list ex_u2) corr_one DegreeBlock False (list_rng [1]))
     (0, 1) = [(0, False), (0, True), (1, False), (1, True)] \<and>
   1 < length (edge_list ex_u2) \<and>
   (\<exists>st1. correlated_get_target_edge
      (CorrelatedRewireStrategy ex_u2 (edge_list ex_u2) corr_one DegreeBlock False (list_rng [1])) 1
        = Some ((0, True), st1)) \<and>
   DegreeBlock (target_ep (0, True) (edge_list ex_u2) ex_u2) ex_u2
     = DegreeBlock (target (edge_list ex_u2 ! 1) ex_u2) ex_u2 \<and>
   (\<exists>st'. correlated_rewire
      (CorrelatedRewireStrategy ex_u2 (edge_list ex_u2) corr_one DegreeBlock False (list_rng [1]))
      1 False False = Some (True, st') \<and> correlated_exact st' \<and>
      edge_blocks DegreeBlock (s_g st') = edge_blocks DegreeBlock ex_u2)"
proof -
  let ?c = "CorrelatedRewireStrategy ex_u2 (edge_list ex_u2) corr_one DegreeBlock False (list_rng [1])"
  obtain c' where c: "correlated_rewire ?c 1 False False = Some (True, c')"
    using ex_correlated_accepts by (cases "correlated_rewire ?c 1 False False") auto
  note inst = correlated_degree_buckets[where g=ex_u2 and edges="edge_list ex_u2"
      and corr_prob="corr_one :: nat \<times> nat \<Rightarrow> nat \<times> nat \<Rightarrow> double" and blockdeg=DegreeBlock
      and cache=False and rng="list_rng [1]" and cst="?c" and ei=1 and r="(0, True)" and d="(0, 1)"
      and self_loops=False and parallel_edges=False and b=True and cst'=c']
  have l: "1 < length (edge_list ex_u2)" by (simp add: ex_u2_def)
  have cex: "correlated_exact ?c" using inst ex_u2_ok by blast
  have bk: "edges_by_target ?c (0, 1) = [(0, False), (0, True), (1, False), (1, True)]"
  proof -
    have "edges_by_target ?c = target_bucket ex_u2 (edge_list ex_u2)" using inst by blast
    then show ?thesis
      by (simp add: target_bucket_def orientations_def ex_u2_def eval_defs)
  qed
  obtain i r' where
    g: "correlated_get_target_edge ?c 1
          = Some (target_bucket (s_g ?c) (s_edges ?c)
                    (DegreeBlock (target (s_edges ?c ! 1) (s_g ?c)) (s_g ?c)) ! i,
                  ?c\<lparr>s_rng := r'\<rparr>)"
    and t: "DegreeBlock (target_ep
                     (target_bucket (s_g ?c) (s_edges ?c)
                        (DegreeBlock (target (s_edges ?c ! 1) (s_g ?c)) (s_g ?c)) ! i)
                     (s_edges ?c) (s_g ?c)) (s_g ?c)
                 = DegreeBlock (target (s_edges ?c ! 1) (s_g ?c)) (s_g ?c)"
    using inst cex l unfolding ex_correlated_state by blast
  have e: "target_bucket (s_g ?c) (s_edges ?c)
                    (DegreeBlock (target (s_edges ?c ! 1) (s_g ?c)) (s_g ?c)) ! i = (0, True)"
    using g ex_correlated_target by simp
  have g': "\<exists>st1. correlated_get_target_edge ?c 1 = Some ((0, True), st1)"
    using g unfolding e by blast
  have t': "DegreeBlock (target_ep (0, True) (edge_list ex_u2) ex_u2) ex_u2
     = DegreeBlock (target (edge_list ex_u2 ! 1) ex_u2) ex_u2"
    using t e unfolding ex_correlated_state by simp
  have m: "correlated_exact c' \<and> edge_blocks DegreeBlock (s_g c') = edge_blocks DegreeBlock ex_u2"
    using inst cex c unfolding ex_correlated_state by blast
  show ?thesis using ex_u2_ok cex bk l g' t' c m by blast
qed

text \<open>
  Claim C4 as stated fails under a property block. With the property map that labels
  every vertex by itself, on the directed graph of the two edges 0 \<rightarrow> 1 and 2 \<rightarrow> 3, the
  Correlated strategy draws for slot 1 the slot 0, whose target has another block; the
  move is accepted and changes the multiset of block pairs.
\<close>

theorem correlated_property_block_counterexample:
  "map_option fst (correlated_get_target_edge
      (CorrelatedRewireStrategy ex_g2 (edge_list ex_g2) corr_one vertex_block False (list_rng [0])) 1)
     = Some (0, False) \<and>
   vertex_block (target_ep (0, False) (edge_list ex_g2) ex_g2) ex_g2
     \<noteq> vertex_block (target (edge_list ex_g2 ! 1) ex_g2) ex_g2 \<and>
   map_option fst (correlated_rewire
      (CorrelatedRewireStrategy ex_g2 (edge_list ex_g2) corr_one vertex_block False (list_rng [0]))
      1 False False) = Some True \<and>
   blocks_after vertex_block (correlated_rewire
      (CorrelatedRewireStrategy ex_g2 (edge_list ex_g2) corr_one vertex_block False (list_rng [0]))
      1 False False) = Some {#(0, 3), (2, 1)#} \<and>
   edge_blocks vertex_block ex_g2 = {#(0, 1), (2, 3)#} \<and>
   {#(0 :: nat, 3 :: nat), (2, 1)#} \<noteq> {#(0, 1), (2, 3)#}"
  using ex_blocks_differ
  by (simp add: correlated_rewire_def CorrelatedRewireStrategy_def ex_g2_def vertex_block_def
       correlated_get_target_edge_def correlated_update_edge_def correlated_index_edge_def
       edge_blocks_def blocks_after_def eval_defs)

section \<open>The invocations of the strategy\<close>

text \<open>
  To count the invocations of a strategy's \<^verbatim>\<open>operator()\<close>, the strategy is run with a
  log beside its state: \<open>recording rewire\<close> is \<open>rewire\<close>, and each invocation that
  returns appends the slot it was given and its result to the log. The driver does not
  know the log; whatever the log holds at the end was put there by an invocation.
\<close>

type_synonym call = "nat \<times> bool"

definition attach_log ::
  "'a base_state_scheme \<Rightarrow> call list \<Rightarrow> ('a \<times> call list) base_state_scheme" where
  "attach_log st l =
     \<lparr>s_g = s_g st, s_edges = s_edges st, s_rng = s_rng st, \<dots> = (base_state.more st, l)\<rparr>"

definition strip_log :: "('a \<times> call list) base_state_scheme \<Rightarrow> 'a base_state_scheme" where
  "strip_log st =
     \<lparr>s_g = s_g st, s_edges = s_edges st, s_rng = s_rng st, \<dots> = fst (base_state.more st)\<rparr>"

definition calls :: "('a \<times> call list) base_state_scheme \<Rightarrow> call list" where
  "calls st = snd (base_state.more st)"

definition recording ::
  "('a base_state_scheme \<Rightarrow> nat \<Rightarrow> bool \<Rightarrow> bool \<Rightarrow> (bool \<times> 'a base_state_scheme) option) \<Rightarrow>
   ('a \<times> call list) base_state_scheme \<Rightarrow> nat \<Rightarrow> bool \<Rightarrow> bool \<Rightarrow>
   (bool \<times> ('a \<times> call list) base_state_scheme) option" where
  "recording rewire st ei self_loops parallel_edges =
     (case rewire (strip_log st) ei self_loops parallel_edges of
        None \<Rightarrow> None
      | Some (success, st') \<Rightarrow> Some (success, attach_log st' (calls st @ [(ei, success)])))"

definition recording_ctor ::
  "(graph \<Rightarrow> edge_t list \<Rightarrow> ('b \<Rightarrow> 'b \<Rightarrow> double) \<Rightarrow> 'b blockdeg \<Rightarrow> bool \<Rightarrow> rng_t \<Rightarrow>
      'a base_state_scheme) \<Rightarrow>
   graph \<Rightarrow> edge_t list \<Rightarrow> ('b \<Rightarrow> 'b \<Rightarrow> double) \<Rightarrow> 'b blockdeg \<Rightarrow> bool \<Rightarrow> rng_t \<Rightarrow>
      ('a \<times> call list) base_state_scheme" where
  "recording_ctor ctor g edges corr_prob blockdeg cache rng =
     attach_log (ctor g edges corr_prob blockdeg cache rng) []"

definition erase_log ::
  "('a \<times> call list) base_state_scheme driver_state \<Rightarrow> 'a base_state_scheme driver_state" where
  "erase_log d =
     \<lparr>d_rewire = strip_log (d_rewire d), d_edge_pos = d_edge_pos d, d_pcount = d_pcount d\<rparr>"

text \<open>
  A visit of a slot is one pass through the body of the inner loop: the slot, the number
  of failed invocations that were retried, and the result of the last invocation. Its
  invocations are the retried ones followed by the last one. Without persistence
  nothing is retried; with persistence the last invocation succeeded.
\<close>

type_synonym visit = "nat \<times> nat \<times> bool"

definition visit_calls :: "visit \<Rightarrow> call list" where
  "visit_calls v = (case v of (ei, n, b) \<Rightarrow> replicate n (ei, False) @ [(ei, b)])"

definition visit_ok :: "bool \<Rightarrow> visit \<Rightarrow> bool" where
  "visit_ok persist v = (case v of (ei, n, b) \<Rightarrow> if persist then b else n = 0)"

definition failed_visits :: "visit list \<Rightarrow> nat" where
  "failed_visits vs = length (filter (\<lambda>v. \<not> snd (snd v)) vs)"

lemma strip_attach [simp]: "strip_log (attach_log st l) = st"
  by (simp add: strip_log_def attach_log_def)

lemma calls_attach [simp]: "calls (attach_log st l) = l"
  by (simp add: calls_def attach_log_def)

lemma strip_log_rng [simp]: "strip_log (st\<lparr>s_rng := r\<rparr>) = (strip_log st)\<lparr>s_rng := r\<rparr>"
  by (simp add: strip_log_def)

lemma calls_rng [simp]: "calls (st\<lparr>s_rng := r\<rparr>) = calls st"
  by (simp add: calls_def)

lemma strip_log_sel [simp]:
  "s_rng (strip_log st) = s_rng st" "s_g (strip_log st) = s_g st"
  "s_edges (strip_log st) = s_edges st"
  by (simp_all add: strip_log_def)

lemma attach_log_sel [simp]:
  "s_rng (attach_log st l) = s_rng st" "s_g (attach_log st l) = s_g st"
  "s_edges (attach_log st l) = s_edges st"
  by (simp_all add: attach_log_def)

lemma erase_log_sel [simp]:
  "d_rewire (erase_log d) = strip_log (d_rewire d)"
  "d_edge_pos (erase_log d) = d_edge_pos d"
  "d_pcount (erase_log d) = d_pcount d"
  by (simp_all add: erase_log_def)

lemma erase_log_update:
  "erase_log (d\<lparr>d_rewire := attach_log s l, d_edge_pos := pos, d_pcount := c\<rparr>)
     = (erase_log d)\<lparr>d_rewire := s, d_edge_pos := pos, d_pcount := c\<rparr>"
  by (simp add: erase_log_def)

lemma persist_loop_recording:
  assumes r: "persist_loop step p s = Some y"
  shows "\<forall>rstep st.
           (\<forall>st. rstep st = (case step (strip_log st) of None \<Rightarrow> None
                   | Some (b, s') \<Rightarrow> Some (b, attach_log s' (calls st @ [(ei, b)])))) \<longrightarrow>
           strip_log st = s \<longrightarrow>
           (\<exists>n. persist_loop rstep p st
                  = Some (fst y, attach_log (snd y) (calls st @ visit_calls (ei, n, fst y))) \<and>
                visit_ok p (ei, n, fst y))"
proof (rule persist_loop.raw_induct[where P="\<lambda>step p s y. \<forall>rstep st.
           (\<forall>st. rstep st = (case step (strip_log st) of None \<Rightarrow> None
                   | Some (b, s') \<Rightarrow> Some (b, attach_log s' (calls st @ [(ei, b)])))) \<longrightarrow>
           strip_log st = s \<longrightarrow>
           (\<exists>n. persist_loop rstep p st
                  = Some (fst y, attach_log (snd y) (calls st @ visit_calls (ei, n, fst y))) \<and>
                visit_ok p (ei, n, fst y))", OF _ r])
  fix pl :: "('a base_state_scheme \<Rightarrow> (bool \<times> 'a base_state_scheme) option) \<Rightarrow> bool \<Rightarrow>
             'a base_state_scheme \<Rightarrow> (bool \<times> 'a base_state_scheme) option"
    and step persist s res
  assume ih: "\<And>step persist s y. pl step persist s = Some y \<Longrightarrow>
         \<forall>rstep st.
           (\<forall>st. rstep st = (case step (strip_log st) of None \<Rightarrow> None
                   | Some (b, s') \<Rightarrow> Some (b, attach_log s' (calls st @ [(ei, b)])))) \<longrightarrow>
           strip_log st = s \<longrightarrow>
           (\<exists>n. persist_loop rstep persist st
                  = Some (fst y, attach_log (snd y) (calls st @ visit_calls (ei, n, fst y))) \<and>
                visit_ok persist (ei, n, fst y))"
    and body: "(case step s of None \<Rightarrow> None
      | Some (success, st') \<Rightarrow>
          if persist \<and> \<not> success then pl step persist st' else Some (success, st')) = Some res"
  show "\<forall>rstep st.
           (\<forall>st. rstep st = (case step (strip_log st) of None \<Rightarrow> None
                   | Some (b, s') \<Rightarrow> Some (b, attach_log s' (calls st @ [(ei, b)])))) \<longrightarrow>
           strip_log st = s \<longrightarrow>
           (\<exists>n. persist_loop rstep persist st
                  = Some (fst res, attach_log (snd res) (calls st @ visit_calls (ei, n, fst res))) \<and>
                visit_ok persist (ei, n, fst res))"
  proof (intro allI impI)
    fix rstep :: "('a \<times> call list) base_state_scheme \<Rightarrow>
                  (bool \<times> ('a \<times> call list) base_state_scheme) option"
      and st
    assume sim: "\<forall>st. rstep st = (case step (strip_log st) of None \<Rightarrow> None
                   | Some (b, s') \<Rightarrow> Some (b, attach_log s' (calls st @ [(ei, b)])))"
      and st: "strip_log st = s"
    obtain success s1 where s1: "step s = Some (success, s1)"
      using body by (cases "step s") auto
    have rs: "rstep st = Some (success, attach_log s1 (calls st @ [(ei, success)]))"
      using sim st s1 by simp
    show "\<exists>n. persist_loop rstep persist st
                  = Some (fst res, attach_log (snd res) (calls st @ visit_calls (ei, n, fst res))) \<and>
                visit_ok persist (ei, n, fst res)"
    proof (cases "persist \<and> \<not> success")
      case True
      then have rec: "pl step persist s1 = Some res" using body s1 by simp
      let ?st1 = "attach_log s1 (calls st @ [(ei, False)])"
      have "strip_log ?st1 = s1" by simp
      with ih[OF rec] sim obtain n where
        n: "persist_loop rstep persist ?st1
              = Some (fst res, attach_log (snd res) (calls ?st1 @ visit_calls (ei, n, fst res)))"
        and ok: "visit_ok persist (ei, n, fst res)"
        by blast
      have "persist_loop rstep persist st = persist_loop rstep persist ?st1"
        using rs True by (subst persist_loop.simps) simp
      then have "persist_loop rstep persist st
              = Some (fst res, attach_log (snd res) (calls st @ visit_calls (ei, Suc n, fst res)))"
        using n by (simp add: visit_calls_def)
      moreover have "visit_ok persist (ei, Suc n, fst res)"
        using ok True by (simp add: visit_ok_def)
      ultimately show ?thesis by blast
    next
      case False
      then have res: "res = (success, s1)" using body s1 by auto
      have "persist_loop rstep persist st = Some (success, attach_log s1 (calls st @ [(ei, success)]))"
        using rs False by (subst persist_loop.simps) auto
      then have "persist_loop rstep persist st
              = Some (fst res, attach_log (snd res) (calls st @ visit_calls (ei, 0, fst res)))"
        by (simp add: res visit_calls_def)
      moreover have "visit_ok persist (ei, 0, fst res)"
        using False by (auto simp: visit_ok_def res)
      ultimately show ?thesis by blast
    qed
  qed
qed

lemma visit_recording:
  assumes "persist_loop (\<lambda>st. rw st ei sl pe) p ((strip_log st)\<lparr>s_rng := r\<rparr>) = Some (b, s1)"
  shows "\<exists>n. persist_loop (\<lambda>st. recording rw st ei sl pe) p (st\<lparr>s_rng := r\<rparr>)
                = Some (b, attach_log s1 (calls st @ visit_calls (ei, n, b))) \<and>
              visit_ok p (ei, n, b)"
proof -
  have "\<exists>n. persist_loop (\<lambda>st. recording rw st ei sl pe) p (st\<lparr>s_rng := r\<rparr>)
                = Some (fst (b, s1), attach_log (snd (b, s1))
                     (calls (st\<lparr>s_rng := r\<rparr>) @ visit_calls (ei, n, fst (b, s1)))) \<and>
              visit_ok p (ei, n, fst (b, s1))"
    by (rule persist_loop_recording[OF assms, rule_format,
          where rstep="\<lambda>st. recording rw st ei sl pe" and st="st\<lparr>s_rng := r\<rparr>" and ei=ei])
       (simp_all add: recording_def)
  then show ?thesis by simp
qed

text \<open>
  The slot the inner loop visits first: the entry the shuffle puts at position 0 with the
  first draw of the random source.
\<close>

definition first_slot :: "nat list \<Rightarrow> rng_t \<Rightarrow> nat" where
  "first_slot pos r = fst (random_permutation_step 0 pos r) ! 0"

lemma failed_visits_Cons:
  "failed_visits ((ei, n, b) # vs) = (if \<not> b then 1 else 0) + failed_visits vs"
  by (simp add: failed_visits_def)

lemma sweep_loop_recording_full:
  "sweep_loop rw sl pe p False i k (erase_log d) = Some d0 \<Longrightarrow>
   i + k = length (d_edge_pos d) \<Longrightarrow>
   \<exists>d' vs. sweep_loop (recording rw) sl pe p False i k d = Some d' \<and> erase_log d' = d0 \<and>
       calls (d_rewire d') = calls (d_rewire d) @ concat (map visit_calls vs) \<and>
       list_all (visit_ok p) vs \<and> map fst vs = drop i (d_edge_pos d0) \<and>
       d_pcount d0 = d_pcount d + failed_visits vs \<and>
       length (d_edge_pos d0) = length (d_edge_pos d) \<and>
       mset (d_edge_pos d0) = mset (d_edge_pos d) \<and>
       take i (d_edge_pos d0) = take i (d_edge_pos d) \<and>
       (0 < k \<longrightarrow> d_edge_pos d0 ! i
          = fst (random_permutation_step i (d_edge_pos d) (s_rng (d_rewire d))) ! i)"
proof (induction k arbitrary: i d)
  case 0
  then have "erase_log d = d0" by simp
  moreover have "drop i (d_edge_pos d) = []" using 0 by simp
  ultimately show ?case
    by (intro exI[of _ d] exI[of _ "[]"]) (auto simp: failed_visits_def)
next
  case (Suc k)
  let ?p = "d_edge_pos d"
  have i: "i < length ?p" using Suc.prems(2) by simp
  obtain pos r where ps: "random_permutation_step i ?p (s_rng (d_rewire d)) = (pos, r)"
    by (cases "random_permutation_step i ?p (s_rng (d_rewire d))")
  note pp = random_permutation_step_props[OF i ps]
  obtain b s1 where
    pl: "persist_loop (\<lambda>st. rw st (pos ! i) sl pe) p ((strip_log (d_rewire d))\<lparr>s_rng := r\<rparr>)
           = Some (b, s1)"
    using Suc.prems(1) ps by (auto simp: Let_def split: option.splits)
  from visit_recording[where rw=rw and ei="pos ! i" and sl=sl and pe=pe, OF pl] obtain n where
    rl: "persist_loop (\<lambda>st. recording rw st (pos ! i) sl pe) p ((d_rewire d)\<lparr>s_rng := r\<rparr>)
           = Some (b, attach_log s1 (calls (d_rewire d) @ visit_calls (pos ! i, n, b)))"
    and ok: "visit_ok p (pos ! i, n, b)"
    by blast
  define d1 where "d1 = d\<lparr>d_rewire := attach_log s1 (calls (d_rewire d) @ visit_calls (pos ! i, n, b)),
                           d_edge_pos := pos,
                           d_pcount := (if \<not> b then d_pcount d + 1 else d_pcount d)\<rparr>"
  have e1: "erase_log d1 = (erase_log d)\<lparr>d_rewire := s1, d_edge_pos := pos,
                           d_pcount := (if \<not> b then d_pcount d + 1 else d_pcount d)\<rparr>"
    unfolding d1_def by (rule erase_log_update)
  have rec0: "sweep_loop rw sl pe p False (Suc i) k (erase_log d1) = Some d0"
    using Suc.prems(1) ps pl unfolding e1 by (cases b) (simp_all add: Let_def)
  have unf: "sweep_loop (recording rw) sl pe p False i (Suc k) d
               = sweep_loop (recording rw) sl pe p False (Suc i) k d1"
    using ps rl by (simp add: Let_def d1_def)
  have p1: "d_edge_pos d1 = pos" and c1: "calls (d_rewire d1)
               = calls (d_rewire d) @ visit_calls (pos ! i, n, b)"
    and pc1: "d_pcount d1 = (if \<not> b then d_pcount d + 1 else d_pcount d)"
    by (simp_all add: d1_def)
  have len1: "Suc i + k = length (d_edge_pos d1)" using Suc.prems(2) pp by (simp add: p1)
  from Suc.IH[OF rec0 len1] obtain d' vs where
    run: "sweep_loop (recording rw) sl pe p False (Suc i) k d1 = Some d'"
    and er: "erase_log d' = d0"
    and cl: "calls (d_rewire d') = calls (d_rewire d1) @ concat (map visit_calls vs)"
    and oks: "list_all (visit_ok p) vs"
    and sl: "map fst vs = drop (Suc i) (d_edge_pos d0)"
    and pc: "d_pcount d0 = d_pcount d1 + failed_visits vs"
    and ln: "length (d_edge_pos d0) = length (d_edge_pos d1)"
    and ms: "mset (d_edge_pos d0) = mset (d_edge_pos d1)"
    and tk: "take (Suc i) (d_edge_pos d0) = take (Suc i) (d_edge_pos d1)"
    by blast
  have i': "i < length (d_edge_pos d0)" using ln i pp unfolding p1 by simp
  have nth: "d_edge_pos d0 ! i = pos ! i"
    using arg_cong[OF tk, of "\<lambda>xs. xs ! i"] unfolding p1 by simp
  have tki: "take i (d_edge_pos d0) = take i pos"
    using arg_cong[OF tk, of "take i"] unfolding p1 by (simp add: min_def)
  let ?vs = "(pos ! i, n, b) # vs"
  have a: "calls (d_rewire d') = calls (d_rewire d) @ concat (map visit_calls ?vs)"
    using cl c1 by simp
  have b: "list_all (visit_ok p) ?vs" using ok oks by simp
  have "map fst ?vs = pos ! i # drop (Suc i) (d_edge_pos d0)" using sl by simp
  also have "\<dots> = drop i (d_edge_pos d0)" using Cons_nth_drop_Suc[OF i'] nth by simp
  finally have c: "map fst ?vs = drop i (d_edge_pos d0)" .
  have e: "d_pcount d0 = d_pcount d + failed_visits ?vs"
    using pc pc1 by (simp add: failed_visits_Cons)
  have f: "length (d_edge_pos d0) = length ?p" "mset (d_edge_pos d0) = mset ?p"
    "take i (d_edge_pos d0) = take i ?p"
    using ln ms tki pp unfolding p1 by simp_all
  have h: "d_edge_pos d0 ! i = fst (random_permutation_step i ?p (s_rng (d_rewire d))) ! i"
    using nth ps by simp
  show ?case
    unfolding unf using run er a b c e f h by blast
qed

lemma sweep_loop_recording_single:
  assumes run0: "sweep_loop rw sl pe p True 0 k (erase_log d) = Some d0"
    and k: "k = length (d_edge_pos d)"
  shows "\<exists>d' vs. sweep_loop (recording rw) sl pe p True 0 k d = Some d' \<and> erase_log d' = d0 \<and>
       calls (d_rewire d') = calls (d_rewire d) @ concat (map visit_calls vs) \<and>
       list_all (visit_ok p) vs \<and> length vs = (if k = 0 then 0 else 1) \<and>
       list_all (\<lambda>v. fst v \<in> set (d_edge_pos d)) vs \<and>
       d_pcount d0 = d_pcount d + failed_visits vs \<and>
       mset (d_edge_pos d0) = mset (d_edge_pos d) \<and>
       (0 < k \<longrightarrow> map fst vs = [first_slot (d_edge_pos d) (s_rng (d_rewire d))])"
proof (cases k)
  case 0
  then have "erase_log d = d0" using run0 by simp
  then show ?thesis unfolding 0
    by (intro exI[of _ d] exI[of _ "[]"]) (auto simp: failed_visits_def)
next
  case (Suc k')
  let ?p = "d_edge_pos d"
  have i: "0 < length ?p" using k Suc by (cases ?p) auto
  obtain pos r where ps: "random_permutation_step 0 ?p (s_rng (d_rewire d)) = (pos, r)"
    by (cases "random_permutation_step 0 ?p (s_rng (d_rewire d))")
  note pp = random_permutation_step_props[OF i ps]
  obtain b s1 where
    pl: "persist_loop (\<lambda>st. rw st (pos ! 0) sl pe) p ((strip_log (d_rewire d))\<lparr>s_rng := r\<rparr>)
           = Some (b, s1)"
    using run0 ps unfolding Suc by (auto simp: Let_def split: option.splits)
  from visit_recording[where rw=rw and ei="pos ! 0" and sl=sl and pe=pe, OF pl] obtain n where
    rl: "persist_loop (\<lambda>st. recording rw st (pos ! 0) sl pe) p ((d_rewire d)\<lparr>s_rng := r\<rparr>)
           = Some (b, attach_log s1 (calls (d_rewire d) @ visit_calls (pos ! 0, n, b)))"
    and ok: "visit_ok p (pos ! 0, n, b)"
    by blast
  define d1 where "d1 = d\<lparr>d_rewire := attach_log s1 (calls (d_rewire d) @ visit_calls (pos ! 0, n, b)),
                           d_edge_pos := pos,
                           d_pcount := (if \<not> b then d_pcount d + 1 else d_pcount d)\<rparr>"
  have e1: "erase_log d1 = (erase_log d)\<lparr>d_rewire := s1, d_edge_pos := pos,
                           d_pcount := (if \<not> b then d_pcount d + 1 else d_pcount d)\<rparr>"
    unfolding d1_def by (rule erase_log_update)
  have d0: "d0 = erase_log d1"
    using run0 ps pl unfolding Suc e1 by (cases b) (simp_all add: Let_def)
  have unf: "sweep_loop (recording rw) sl pe p True 0 k d = Some d1"
    using ps rl unfolding Suc by (simp add: Let_def d1_def)
  have "pos ! 0 \<in> set pos" using pp i by (metis nth_mem)
  then have mem: "pos ! 0 \<in> set ?p" using pp by (metis mset_eq_setD)
  let ?vs = "[(pos ! 0, n, b)]"
  have q1: "calls (d_rewire d1) = calls (d_rewire d) @ concat (map visit_calls ?vs)"
    by (simp add: d1_def)
  have q2: "list_all (visit_ok p) ?vs" using ok by simp
  have q3: "length ?vs = (if k = 0 then 0 else 1)" using Suc by simp
  have q4: "list_all (\<lambda>v. fst v \<in> set ?p) ?vs" using mem by simp
  have q5: "d_pcount d0 = d_pcount d + failed_visits ?vs"
    unfolding d0 by (simp add: d1_def failed_visits_def)
  have q6: "mset (d_edge_pos d0) = mset ?p" unfolding d0 using pp by (simp add: d1_def)
  have q7: "map fst ?vs = [first_slot ?p (s_rng (d_rewire d))]"
    using ps by (simp add: first_slot_def)
  have "sweep_loop (recording rw) sl pe p True 0 k d = Some d1 \<and> erase_log d1 = d0 \<and>
       calls (d_rewire d1) = calls (d_rewire d) @ concat (map visit_calls ?vs) \<and>
       list_all (visit_ok p) ?vs \<and> length ?vs = (if k = 0 then 0 else 1) \<and>
       list_all (\<lambda>v. fst v \<in> set (d_edge_pos d)) ?vs \<and>
       d_pcount d0 = d_pcount d + failed_visits ?vs \<and>
       mset (d_edge_pos d0) = mset (d_edge_pos d) \<and>
       (0 < k \<longrightarrow> map fst ?vs = [first_slot (d_edge_pos d) (s_rng (d_rewire d))])"
    using unf d0 q1 q2 q3 q4 q5 q6 q7 by simp
  then show ?thesis
    by - (rule exI[of _ d1], rule exI[of _ "[(pos ! 0, n, b)]"], assumption)
qed

lemma failed_visits_append: "failed_visits (vs @ ws) = failed_visits vs + failed_visits ws"
  by (simp add: failed_visits_def)

lemma iter_loop_recording_full:
  "iter_loop rw sl pe p False n (erase_log d) = Some d0 \<Longrightarrow>
   mset (d_edge_pos d) = mset [0..<m] \<Longrightarrow>
   \<exists>d' vs ps. iter_loop (recording rw) sl pe p False n d = Some d' \<and> erase_log d' = d0 \<and>
       calls (d_rewire d') = calls (d_rewire d) @ concat (map visit_calls vs) \<and>
       list_all (visit_ok p) vs \<and> map fst vs = concat ps \<and> length ps = n \<and>
       list_all (\<lambda>q. mset q = mset [0..<m]) ps \<and>
       d_pcount d0 = d_pcount d + failed_visits vs \<and>
       (0 < n \<longrightarrow> last ps = d_edge_pos d0) \<and>
       (0 < n \<and> 0 < m \<longrightarrow>
          fst (hd vs) = first_slot (d_edge_pos d) (s_rng (d_rewire d)))"
proof (induction n arbitrary: d)
  case 0
  then have "erase_log d = d0" by simp
  then show ?case
    by (intro exI[of _ d] exI[of _ "[]"]) (auto simp: failed_visits_def)
next
  case (Suc n)
  have len: "length (d_edge_pos d) = m"
    using Suc.prems(2) by (metis size_mset length_upt diff_zero)
  obtain e1 where sw: "sweep_loop rw sl pe p False 0 (length (d_edge_pos d)) (erase_log d) = Some e1"
    and it: "iter_loop rw sl pe p False n e1 = Some d0"
    using Suc.prems(1) by (auto split: option.splits)
  from sweep_loop_recording_full[OF sw] obtain d1 vs where
    run1: "sweep_loop (recording rw) sl pe p False 0 (length (d_edge_pos d)) d = Some d1"
    and er1: "erase_log d1 = e1"
    and cl1: "calls (d_rewire d1) = calls (d_rewire d) @ concat (map visit_calls vs)"
    and ok1: "list_all (visit_ok p) vs" and sl1: "map fst vs = d_edge_pos e1"
    and pc1: "d_pcount e1 = d_pcount d + failed_visits vs"
    and ms1: "mset (d_edge_pos e1) = mset (d_edge_pos d)"
    and fs1: "0 < length (d_edge_pos d) \<longrightarrow> d_edge_pos e1 ! 0
          = fst (random_permutation_step 0 (d_edge_pos d) (s_rng (d_rewire d))) ! 0"
    by auto
  have m1: "mset (d_edge_pos d1) = mset [0..<m]" using ms1 Suc.prems(2) er1 by auto
  have it': "iter_loop rw sl pe p False n (erase_log d1) = Some d0" using it er1 by simp
  from Suc.IH[OF it' m1] obtain d' ws ps where
    run: "iter_loop (recording rw) sl pe p False n d1 = Some d'" and er: "erase_log d' = d0"
    and cl: "calls (d_rewire d') = calls (d_rewire d1) @ concat (map visit_calls ws)"
    and ok: "list_all (visit_ok p) ws" and sl: "map fst ws = concat ps" and ln: "length ps = n"
    and pm: "list_all (\<lambda>q. mset q = mset [0..<m]) ps"
    and pc: "d_pcount d0 = d_pcount d1 + failed_visits ws"
    and ls: "0 < n \<longrightarrow> last ps = d_edge_pos d0"
    by blast
  have pe1: "d_pcount d1 = d_pcount e1" and ep1: "d_edge_pos d1 = d_edge_pos e1"
    using er1 by auto
  have k: "last (d_edge_pos e1 # ps) = d_edge_pos d0"
  proof (cases n)
    case 0
    then have "ps = []" using ln by simp
    moreover have "d0 = e1" using it 0 by simp
    ultimately show ?thesis by simp
  next
    case (Suc n')
    then have "ps \<noteq> []" using ln by auto
    then show ?thesis using ls Suc by simp
  qed
  have j: "0 < m \<longrightarrow> fst (hd (vs @ ws)) = first_slot (d_edge_pos d) (s_rng (d_rewire d))"
  proof
    assume m: "0 < m"
    have lv: "length vs = m"
      using arg_cong[OF sl1, of length] ms1 len by (metis length_map size_mset)
    then have ne: "vs \<noteq> []" using m by auto
    have "fst (hd (vs @ ws)) = map fst vs ! 0" using ne by (cases vs) simp_all
    also have "\<dots> = d_edge_pos e1 ! 0" unfolding sl1 ..
    finally show "fst (hd (vs @ ws)) = first_slot (d_edge_pos d) (s_rng (d_rewire d))"
      using fs1 m len by (simp add: first_slot_def)
  qed
  have a: "iter_loop (recording rw) sl pe p False (Suc n) d = Some d'" using run1 run by simp
  have b: "calls (d_rewire d') = calls (d_rewire d) @ concat (map visit_calls (vs @ ws))"
    using cl cl1 by simp
  have c: "list_all (visit_ok p) (vs @ ws)" using ok ok1 by simp
  have e: "map fst (vs @ ws) = concat (d_edge_pos e1 # ps)" using sl sl1 by simp
  have f: "length (d_edge_pos e1 # ps) = Suc n" using ln by simp
  have g: "list_all (\<lambda>q. mset q = mset [0..<m]) (d_edge_pos e1 # ps)"
    using pm m1 ep1 by simp
  have h: "d_pcount d0 = d_pcount d + failed_visits (vs @ ws)"
    using pc pc1 pe1 by (simp add: failed_visits_append)
  show ?case using a er b c e f g h k j by blast
qed

lemma iter_loop_recording_single:
  "iter_loop rw sl pe p True n (erase_log d) = Some d0 \<Longrightarrow>
   mset (d_edge_pos d) = mset [0..<m] \<Longrightarrow>
   \<exists>d' vs. iter_loop (recording rw) sl pe p True n d = Some d' \<and> erase_log d' = d0 \<and>
       calls (d_rewire d') = calls (d_rewire d) @ concat (map visit_calls vs) \<and>
       list_all (visit_ok p) vs \<and> length vs = (if m = 0 then 0 else n) \<and>
       list_all (\<lambda>v. fst v < m) vs \<and>
       d_pcount d0 = d_pcount d + failed_visits vs \<and>
       (0 < n \<and> 0 < m \<longrightarrow>
          fst (hd vs) = first_slot (d_edge_pos d) (s_rng (d_rewire d)))"
proof (induction n arbitrary: d)
  case 0
  then have "erase_log d = d0" by simp
  then show ?case
    by (intro exI[of _ d] exI[of _ "[]"]) (auto simp: failed_visits_def)
next
  case (Suc n)
  have len: "length (d_edge_pos d) = m"
    using Suc.prems(2) by (metis size_mset length_upt diff_zero)
  have setp: "set (d_edge_pos d) = {0..<m}"
    using Suc.prems(2) by (metis mset_eq_setD set_upt)
  obtain e1 where sw: "sweep_loop rw sl pe p True 0 (length (d_edge_pos d)) (erase_log d) = Some e1"
    and it: "iter_loop rw sl pe p True n e1 = Some d0"
    using Suc.prems(1) by (auto split: option.splits)
  from sweep_loop_recording_single[OF sw refl, unfolded len]
  obtain d1 vs where all1:
    "sweep_loop (recording rw) sl pe p True 0 m d = Some d1 \<and> erase_log d1 = e1 \<and>
     calls (d_rewire d1) = calls (d_rewire d) @ concat (map visit_calls vs) \<and>
     list_all (visit_ok p) vs \<and> length vs = (if m = 0 then 0 else 1) \<and>
     list_all (\<lambda>v. fst v \<in> set (d_edge_pos d)) vs \<and>
     d_pcount e1 = d_pcount d + failed_visits vs \<and>
     mset (d_edge_pos e1) = mset (d_edge_pos d) \<and>
     (0 < m \<longrightarrow> map fst vs = [first_slot (d_edge_pos d) (s_rng (d_rewire d))])"
    by (elim exE) (erule that)
  then have run1: "sweep_loop (recording rw) sl pe p True 0 (length (d_edge_pos d)) d = Some d1"
    and er1: "erase_log d1 = e1"
    and cl1: "calls (d_rewire d1) = calls (d_rewire d) @ concat (map visit_calls vs)"
    and ok1: "list_all (visit_ok p) vs" and l1: "length vs = (if m = 0 then 0 else 1)"
    and in1: "list_all (\<lambda>v. fst v \<in> set (d_edge_pos d)) vs"
    and pc1: "d_pcount e1 = d_pcount d + failed_visits vs"
    and ms1: "mset (d_edge_pos e1) = mset (d_edge_pos d)"
    and fs1: "0 < m \<longrightarrow> map fst vs = [first_slot (d_edge_pos d) (s_rng (d_rewire d))]"
    unfolding len by blast+
  have m1: "mset (d_edge_pos d1) = mset [0..<m]" using ms1 Suc.prems(2) er1 by auto
  have it': "iter_loop rw sl pe p True n (erase_log d1) = Some d0" using it er1 by simp
  from Suc.IH[OF it' m1] obtain d' ws where
    run: "iter_loop (recording rw) sl pe p True n d1 = Some d'" and er: "erase_log d' = d0"
    and cl: "calls (d_rewire d') = calls (d_rewire d1) @ concat (map visit_calls ws)"
    and ok: "list_all (visit_ok p) ws" and ln: "length ws = (if m = 0 then 0 else n)"
    and lt: "list_all (\<lambda>v. fst v < m) ws"
    and pc: "d_pcount d0 = d_pcount d1 + failed_visits ws"
    by blast
  have pe1: "d_pcount d1 = d_pcount e1" using er1 by auto
  have a: "iter_loop (recording rw) sl pe p True (Suc n) d = Some d'" using run1 run by simp
  have b: "calls (d_rewire d') = calls (d_rewire d) @ concat (map visit_calls (vs @ ws))"
    using cl cl1 by simp
  have c: "list_all (visit_ok p) (vs @ ws)" using ok ok1 by simp
  have e: "length (vs @ ws) = (if m = 0 then 0 else Suc n)" using l1 ln by simp
  have f: "list_all (\<lambda>v. fst v < m) (vs @ ws)"
    using in1 lt unfolding setp by (auto simp: list_all_iff)
  have h: "d_pcount d0 = d_pcount d + failed_visits (vs @ ws)"
    using pc pc1 pe1 by (simp add: failed_visits_append)
  have j: "0 < m \<longrightarrow> fst (hd (vs @ ws)) = first_slot (d_edge_pos d) (s_rng (d_rewire d))"
  proof
    assume m: "0 < m"
    then have mv: "map fst vs = [first_slot (d_edge_pos d) (s_rng (d_rewire d))]"
      using fs1 by blast
    then have ne: "vs \<noteq> []" by auto
    have "fst (hd (vs @ ws)) = hd (map fst vs)" using ne by (simp add: hd_map)
    then show "fst (hd (vs @ ws)) = first_slot (d_edge_pos d) (s_rng (d_rewire d))"
      unfolding mv by simp
  qed
  show ?case using a er b c e f h j by blast
qed

lemma first_slot_upt:
  assumes "0 < m"
  shows "first_slot [0..<m] r = fst (uniform_int 0 (m - 1) r)"
proof -
  obtain j r' where u: "uniform_int 0 (m - 1) r = (j, r')" by (cases "uniform_int 0 (m - 1) r")
  have j: "j < m" using uniform_int_le[OF u] assms by simp
  have "first_slot [0..<m] r = ([0..<m][0 := [0..<m] ! j, j := [0..<m] ! 0]) ! 0"
    using u by (simp add: first_slot_def random_permutation_step_def)
  also have "\<dots> = j" using j assms by (cases "j = 0") simp_all
  finally show ?thesis using u by simp
qed

text \<open>
  Claim C6, as amended. Whatever the strategy, in every run of the driver that returns,
  the strategy run with a log returns the same state, and its log is the invocations of
  a list of visits, one visit for each pass through the body of the inner loop: without
  persistence a visit is one invocation, with persistence it ends with the first
  invocation that succeeds. With \<^verbatim>\<open>no_sweep\<close> there are exactly \<open>k\<close> visits if the graph
  has an edge and none if it has no edge; without \<^verbatim>\<open>no_sweep\<close> there are exactly
  \<open>k * m\<close> visits, whose slots are \<open>k\<close> permutations of the \<open>m\<close> slots one after the
  other, the last of them the content of \<^verbatim>\<open>edge_pos\<close> at the end. The first slot visited
  is the one the first draw of the random source picks, and \<^verbatim>\<open>pcount\<close> is the number of
  visits that failed. Without persistence the driver returns whenever the strategy's
  invocations do (on the states \<open>I\<close> it reaches).
\<close>

theorem driver_visits:
  "(\<not> persist \<and> I (ctor g (edge_list g) corr_prob bd cache rng) \<and>
      (\<forall>st r. I st \<longrightarrow> I (st\<lparr>s_rng := r\<rparr>)) \<and>
      (\<forall>st ei. I st \<and> ei < length (edge_list g) \<longrightarrow>
          (\<exists>b st'. rewire st ei self_loops parallel_edges = Some (b, st') \<and> I st'))
     \<longrightarrow> graph_rewire ctor rewire g corr_prob self_loops parallel_edges (k, no_sweep)
            (persist, cache, verbose) rng bd \<noteq> None) \<and>
   (graph_rewire ctor rewire g corr_prob self_loops parallel_edges (k, no_sweep)
       (persist, cache, verbose) rng bd = Some d0
     \<longrightarrow> (\<exists>d vs. graph_rewire (recording_ctor ctor) (recording rewire) g corr_prob self_loops
                    parallel_edges (k, no_sweep) (persist, cache, verbose) rng bd = Some d \<and>
            erase_log d = d0 \<and>
            calls (d_rewire d) = concat (map visit_calls vs) \<and>
            list_all (visit_ok persist) vs \<and>
            d_pcount d0 = failed_visits vs \<and>
            (0 < k \<and> edge_list g \<noteq> [] \<longrightarrow>
               fst (hd vs) = fst (uniform_int 0 (length (edge_list g) - 1)
                                   (s_rng (ctor g (edge_list g) corr_prob bd cache rng)))) \<and>
            (no_sweep \<longrightarrow>
               length vs = (if edge_list g = [] then 0 else k) \<and>
               list_all (\<lambda>v. fst v < length (edge_list g)) vs) \<and>
            (\<not> no_sweep \<longrightarrow>
               length vs = k * length (edge_list g) \<and>
               (\<exists>ps. map fst vs = concat ps \<and> length ps = k \<and>
                     list_all (\<lambda>q. mset q = mset [0..<length (edge_list g)]) ps \<and>
                     (0 < k \<longrightarrow> last ps = d_edge_pos d0)))))"
proof (intro conjI impI)
  let ?m = "length (edge_list g)"
  let ?ini = "\<lparr>d_rewire = ctor g (edge_list g) corr_prob bd cache rng, d_edge_pos = [0..<?m],
              d_pcount = 0\<rparr>"
  assume a: "\<not> persist \<and> I (ctor g (edge_list g) corr_prob bd cache rng) \<and>
      (\<forall>st r. I st \<longrightarrow> I (st\<lparr>s_rng := r\<rparr>)) \<and>
      (\<forall>st ei. I st \<and> ei < length (edge_list g) \<longrightarrow>
          (\<exists>b st'. rewire st ei self_loops parallel_edges = Some (b, st') \<and> I st'))"
  then have np: "persist = False" by simp
  have rngI: "\<forall>st r. I st \<longrightarrow> I (st\<lparr>s_rng := r\<rparr>)" using a by blast
  have step: "\<forall>st ei. I st \<and> ei < ?m \<longrightarrow>
          (\<exists>b st'. rewire st ei self_loops parallel_edges = Some (b, st') \<and> I st')"
    using a by blast
  have I0: "I (d_rewire ?ini)" using a by simp
  have m0: "mset (d_edge_pos ?ini) = mset [0..<?m]" by simp
  have "\<exists>d'. iter_loop rewire self_loops parallel_edges False no_sweep k ?ini = Some d'"
    by (rule iter_loop_returns[where I=I and rw=rewire and sl=self_loops and pe=parallel_edges
          and m="?m" and d="?ini" and no_sweep=no_sweep and n=k, OF rngI step I0 m0])
  then show "graph_rewire ctor rewire g corr_prob self_loops parallel_edges (k, no_sweep)
            (persist, cache, verbose) rng bd \<noteq> None"
    by (auto simp: graph_rewire_def Let_def np)
next
  let ?m = "length (edge_list g)"
  let ?ini = "\<lparr>d_rewire = ctor g (edge_list g) corr_prob bd cache rng, d_edge_pos = [0..<?m],
              d_pcount = 0\<rparr>"
  let ?rec = "\<lparr>d_rewire = recording_ctor ctor g (edge_list g) corr_prob bd cache rng,
             d_edge_pos = [0..<?m], d_pcount = 0\<rparr>"
  assume r: "graph_rewire ctor rewire g corr_prob self_loops parallel_edges (k, no_sweep)
       (persist, cache, verbose) rng bd = Some d0"
  have e0: "erase_log ?rec = ?ini" by (simp add: erase_log_def recording_ctor_def)
  have c0: "calls (d_rewire ?rec) = []" by (simp add: recording_ctor_def)
  have p0: "d_pcount ?rec = 0" by simp
  have fs: "0 < ?m \<Longrightarrow> first_slot (d_edge_pos ?rec) (s_rng (d_rewire ?rec))
              = fst (uniform_int 0 (?m - 1) (s_rng (ctor g (edge_list g) corr_prob bd cache rng)))"
    by (simp add: first_slot_upt recording_ctor_def)
  have m0: "mset (d_edge_pos ?rec) = mset [0..<?m]" by simp
  have it: "iter_loop rewire self_loops parallel_edges persist no_sweep k (erase_log ?rec) = Some d0"
    using r unfolding e0 by (simp add: graph_rewire_def Let_def)
  have gr: "graph_rewire (recording_ctor ctor) (recording rewire) g corr_prob self_loops
              parallel_edges (k, no_sweep) (persist, cache, verbose) rng bd
            = iter_loop (recording rewire) self_loops parallel_edges persist no_sweep k ?rec"
    by (simp add: graph_rewire_def Let_def)
  show "\<exists>d vs. graph_rewire (recording_ctor ctor) (recording rewire) g corr_prob self_loops
                    parallel_edges (k, no_sweep) (persist, cache, verbose) rng bd = Some d \<and>
            erase_log d = d0 \<and>
            calls (d_rewire d) = concat (map visit_calls vs) \<and>
            list_all (visit_ok persist) vs \<and>
            d_pcount d0 = failed_visits vs \<and>
            (0 < k \<and> edge_list g \<noteq> [] \<longrightarrow>
               fst (hd vs) = fst (uniform_int 0 (length (edge_list g) - 1)
                                   (s_rng (ctor g (edge_list g) corr_prob bd cache rng)))) \<and>
            (no_sweep \<longrightarrow>
               length vs = (if edge_list g = [] then 0 else k) \<and>
               list_all (\<lambda>v. fst v < length (edge_list g)) vs) \<and>
            (\<not> no_sweep \<longrightarrow>
               length vs = k * length (edge_list g) \<and>
               (\<exists>ps. map fst vs = concat ps \<and> length ps = k \<and>
                     list_all (\<lambda>q. mset q = mset [0..<length (edge_list g)]) ps \<and>
                     (0 < k \<longrightarrow> last ps = d_edge_pos d0)))"
  proof (cases no_sweep)
    case True
    have ns: "no_sweep = True" using True by simp
    from iter_loop_recording_single[OF it[unfolded ns] m0] obtain d vs where
      run: "iter_loop (recording rewire) self_loops parallel_edges persist True k ?rec = Some d"
      and er: "erase_log d = d0"
      and cl: "calls (d_rewire d) = calls (d_rewire ?rec) @ concat (map visit_calls vs)"
      and ok: "list_all (visit_ok persist) vs"
      and ln: "length vs = (if ?m = 0 then 0 else k)"
      and lt: "list_all (\<lambda>v. fst v < ?m) vs"
      and pc: "d_pcount d0 = d_pcount ?rec + failed_visits vs"
      and fv: "0 < k \<and> 0 < ?m \<longrightarrow>
                 fst (hd vs) = first_slot (d_edge_pos ?rec) (s_rng (d_rewire ?rec))"
      by blast
    have ln': "length vs = (if edge_list g = [] then 0 else k)" using ln by simp
    have fv': "0 < k \<and> edge_list g \<noteq> [] \<longrightarrow>
               fst (hd vs) = fst (uniform_int 0 (?m - 1)
                                   (s_rng (ctor g (edge_list g) corr_prob bd cache rng)))"
      using fv fs by auto
    show ?thesis
      unfolding gr using run er cl ok ln' lt pc fv' True unfolding c0 p0 by auto
  next
    case False
    have ns: "no_sweep = False" using False by simp
    from iter_loop_recording_full[OF it[unfolded ns] m0] obtain d vs ps where
      run: "iter_loop (recording rewire) self_loops parallel_edges persist False k ?rec = Some d"
      and er: "erase_log d = d0"
      and cl: "calls (d_rewire d) = calls (d_rewire ?rec) @ concat (map visit_calls vs)"
      and ok: "list_all (visit_ok persist) vs"
      and sl: "map fst vs = concat ps" and lp: "length ps = k"
      and pm: "list_all (\<lambda>q. mset q = mset [0..<?m]) ps"
      and pc: "d_pcount d0 = d_pcount ?rec + failed_visits vs"
      and ls: "0 < k \<longrightarrow> last ps = d_edge_pos d0"
      and fv: "0 < k \<and> 0 < ?m \<longrightarrow>
                 fst (hd vs) = first_slot (d_edge_pos ?rec) (s_rng (d_rewire ?rec))"
      by blast
    have fv': "0 < k \<and> edge_list g \<noteq> [] \<longrightarrow>
               fst (hd vs) = fst (uniform_int 0 (?m - 1)
                                   (s_rng (ctor g (edge_list g) corr_prob bd cache rng)))"
      using fv fs by auto
    have "length vs = length (map fst vs)" by simp
    also have "\<dots> = k * ?m" unfolding sl using length_concat_perms[OF pm] lp by simp
    finally have ln: "length vs = k * ?m" .
    have ex: "\<exists>ps. map fst vs = concat ps \<and> length ps = k \<and>
                     list_all (\<lambda>q. mset q = mset [0..<?m]) ps \<and>
                     (0 < k \<longrightarrow> last ps = d_edge_pos d0)"
      using sl lp pm ls by blast
    show ?thesis
      unfolding gr using run er cl ok ln ex pc fv' False unfolding c0 p0 by auto
  qed
qed

definition invocations ::
  "('a \<times> call list) base_state_scheme driver_state option \<Rightarrow> call list option" where
  "invocations res = map_option (\<lambda>d. calls (d_rewire d)) res"

text \<open>
  Claim C6 as stated fails on a graph without edges: with \<^verbatim>\<open>no_sweep\<close> and
  \<^verbatim>\<open>n_iter = 1\<close> the driver returns, the inner loop has no slot to visit and the strategy
  is never invoked.
\<close>

theorem driver_no_sweep_empty_counterexample:
  "edge_list ex_g0 = [] \<and>
   invocations (graph_rewire (recording_ctor RandomRewireStrategy) (recording random_rewire)
       ex_g0 corr_one False False (1, True) (False, False, False) (list_rng []) DegreeBlock)
     = Some [] \<and>
   map_option length
     (invocations (graph_rewire (recording_ctor RandomRewireStrategy) (recording random_rewire)
       ex_g0 corr_one False False (1, True) (False, False, False) (list_rng []) DegreeBlock))
     \<noteq> Some 1"
  by (simp add: invocations_def graph_rewire_def ex_g0_def RandomRewireStrategy_def
        recording_ctor_def)

lemma ex_persist_returns:
  "graph_rewire RandomRewireStrategy random_rewire ex_g2 corr_one False False (1, True)
       (True, False, False) (list_rng [0, 0, 1]) DegreeBlock \<noteq> None"
  apply (simp add: graph_rewire_def RandomRewireStrategy_def ex_g2_def
        random_permutation_step_def uniform_int_def rng_next_def list_rng_def)
  apply (subst persist_loop.simps)
  apply (simp add: random_rewire_def random_get_target_edge_def random_update_edge_def
        eval_defs rng_next_def list_rng_def)
  apply (subst persist_loop.simps)
  apply (simp add: random_rewire_def random_get_target_edge_def random_update_edge_def
        eval_defs rng_next_def list_rng_def)
  done

lemma ex_persist_invocations:
  "invocations (graph_rewire (recording_ctor RandomRewireStrategy) (recording random_rewire)
       ex_g2 corr_one False False (1, True) (True, False, False) (list_rng [0, 0, 1]) DegreeBlock)
     = Some [(0, False), (0, True)]"
  apply (simp add: invocations_def graph_rewire_def RandomRewireStrategy_def ex_g2_def
        recording_ctor_def attach_log_def
        random_permutation_step_def uniform_int_def rng_next_def list_rng_def)
  apply (subst persist_loop.simps)
  apply (simp add: recording_def strip_log_def attach_log_def calls_def
        random_rewire_def random_get_target_edge_def random_update_edge_def
        eval_defs rng_next_def list_rng_def)
  apply (subst persist_loop.simps)
  apply (simp add: recording_def strip_log_def attach_log_def calls_def
        random_rewire_def random_get_target_edge_def random_update_edge_def
        eval_defs rng_next_def list_rng_def)
  done

theorem driver_visits_witness:
  "(\<exists>d vs. graph_rewire (recording_ctor RandomRewireStrategy) (recording random_rewire) ex_g2
          corr_one False False (2, False) (False, False, False) (list_rng []) DegreeBlock = Some d \<and>
       calls (d_rewire d) = concat (map visit_calls vs) \<and> list_all (visit_ok False) vs \<and>
       length vs = 2 * length (edge_list ex_g2) \<and>
       (\<exists>ps. map fst vs = concat ps \<and> length ps = 2 \<and>
             list_all (\<lambda>q. mset q = mset [0..<length (edge_list ex_g2)]) ps)) \<and>
   (\<exists>d vs. graph_rewire (recording_ctor RandomRewireStrategy) (recording random_rewire) ex_g2
          corr_one False False (3, True) (False, False, False) (list_rng []) DegreeBlock = Some d \<and>
       calls (d_rewire d) = concat (map visit_calls vs) \<and> list_all (visit_ok False) vs \<and>
       length vs = 3 \<and> list_all (\<lambda>v. fst v < length (edge_list ex_g2)) vs) \<and>
   (\<exists>d vs. graph_rewire (recording_ctor RandomRewireStrategy) (recording random_rewire) ex_g2
          corr_one False False (1, True) (True, False, False) (list_rng [0, 0, 1]) DegreeBlock
          = Some d \<and>
       calls (d_rewire d) = [(0, False), (0, True)] \<and>
       calls (d_rewire d) = concat (map visit_calls vs) \<and> list_all (visit_ok True) vs \<and>
       length vs = 1)"
proof -
  define I :: "base_state \<Rightarrow> bool" where "I = (\<lambda>st. length (s_edges st) = 2)"
  let ?run = "\<lambda>it pv r. graph_rewire RandomRewireStrategy random_rewire ex_g2
       (corr_one :: nat \<times> nat \<Rightarrow> nat \<times> nat \<Rightarrow> double) False False it pv r DegreeBlock"
  let ?rec = "\<lambda>it pv r. graph_rewire (recording_ctor RandomRewireStrategy)
       (recording random_rewire) ex_g2
       (corr_one :: nat \<times> nat \<Rightarrow> nat \<times> nat \<Rightarrow> double) False False it pv r DegreeBlock"
  have I0: "I (RandomRewireStrategy ex_g2 (edge_list ex_g2) corr_one DegreeBlock False (list_rng []))"
    by (simp add: I_def RandomRewireStrategy_def ex_g2_def)
  have Ir: "\<forall>st r. I st \<longrightarrow> I (st\<lparr>s_rng := r\<rparr>)" by (simp add: I_def)
  have Is: "\<forall>st ei. I st \<and> ei < length (edge_list ex_g2) \<longrightarrow>
          (\<exists>b st'. random_rewire st ei False False = Some (b, st') \<and> I st')"
  proof (intro allI impI)
    fix st :: base_state and ei assume a: "I st \<and> ei < length (edge_list ex_g2)"
    then have "ei < length (s_edges st)" by (simp add: I_def ex_g2_def)
    from random_rewire_returns[OF this, of False False] a
    show "\<exists>b st'. random_rewire st ei False False = Some (b, st') \<and> I st'"
      by (auto simp: I_def)
  qed
  note full = driver_visits[where persist=False and I=I and ctor=RandomRewireStrategy
      and g=ex_g2 and corr_prob="corr_one :: nat \<times> nat \<Rightarrow> nat \<times> nat \<Rightarrow> double"
      and bd=DegreeBlock and cache=False
      and rng="list_rng []" and rewire=random_rewire and self_loops=False
      and parallel_edges=False and k=2 and no_sweep=False and verbose=False]
  note single = driver_visits[where persist=False and I=I and ctor=RandomRewireStrategy
      and g=ex_g2 and corr_prob="corr_one :: nat \<times> nat \<Rightarrow> nat \<times> nat \<Rightarrow> double"
      and bd=DegreeBlock and cache=False
      and rng="list_rng []" and rewire=random_rewire and self_loops=False
      and parallel_edges=False and k=3 and no_sweep=True and verbose=False]
  note retry = driver_visits[where persist=True and I=I and ctor=RandomRewireStrategy
      and g=ex_g2 and corr_prob="corr_one :: nat \<times> nat \<Rightarrow> nat \<times> nat \<Rightarrow> double"
      and bd=DegreeBlock and cache=False
      and rng="list_rng [0, 0, 1]" and rewire=random_rewire and self_loops=False
      and parallel_edges=False and k=1 and no_sweep=True and verbose=False]
  obtain d2 where d2: "?run (2, False) (False, False, False) (list_rng []) = Some d2"
    using full I0 Ir Is by blast
  obtain d3 where d3: "?run (3, True) (False, False, False) (list_rng []) = Some d3"
    using single I0 Ir Is by blast
  obtain d1 where d1: "?run (1, True) (True, False, False) (list_rng [0, 0, 1]) = Some d1"
    using ex_persist_returns by blast
  have ne: "edge_list ex_g2 \<noteq> []" by (simp add: ex_g2_def)
  have f: "\<exists>d vs. ?rec (2, False) (False, False, False) (list_rng []) = Some d \<and>
       calls (d_rewire d) = concat (map visit_calls vs) \<and> list_all (visit_ok False) vs \<and>
       length vs = 2 * length (edge_list ex_g2) \<and>
       (\<exists>ps. map fst vs = concat ps \<and> length ps = 2 \<and>
             list_all (\<lambda>q. mset q = mset [0..<length (edge_list ex_g2)]) ps)"
    using full[where ?d0.0=d2] d2 by blast
  have s: "\<exists>d vs. ?rec (3, True) (False, False, False) (list_rng []) = Some d \<and>
       calls (d_rewire d) = concat (map visit_calls vs) \<and> list_all (visit_ok False) vs \<and>
       length vs = 3 \<and> list_all (\<lambda>v. fst v < length (edge_list ex_g2)) vs"
    using single[where ?d0.0=d3] d3 ne by auto
  obtain d vs where r: "?rec (1, True) (True, False, False) (list_rng [0, 0, 1]) = Some d"
    and rc: "calls (d_rewire d) = concat (map visit_calls vs)"
    and ro: "list_all (visit_ok True) vs" and rl: "length vs = 1"
    using retry[where ?d0.0=d1] d1 ne by auto
  have "calls (d_rewire d) = [(0, False), (0, True)]"
    using ex_persist_invocations r by (simp add: invocations_def)
  then have t: "\<exists>d vs. ?rec (1, True) (True, False, False) (list_rng [0, 0, 1]) = Some d \<and>
       calls (d_rewire d) = [(0, False), (0, True)] \<and>
       calls (d_rewire d) = concat (map visit_calls vs) \<and> list_all (visit_ok True) vs \<and>
       length vs = 1"
    using r rc ro rl by blast
  show ?thesis using f s t by blast
qed

section \<open>The acceptance rule\<close>

text \<open>
  The probability \<open>p(bs, bt)\<close> of a pair of blocks in a state is the value
  \<^verbatim>\<open>get_prob\<close> returns there, and \<open>pi\<close> and \<open>pf\<close> are the products the specification
  names: \<open>pi = p(bs, bt) \<cdot> p(bs', bt')\<close> and \<open>pf = p(bs, bt') \<cdot> p(bs', bt)\<close>, where
  \<open>bs\<close>, \<open>bt\<close> are the blocks of the source and the target of \<open>edges[ei]\<close> and \<open>bs'\<close>,
  \<open>bt'\<close> those of the candidate \<open>ep\<close>. The value of \<^verbatim>\<open>get_prob\<close> for a pair of blocks
  is the same in all four calls, although a call may add an entry to the table.
\<close>

definition prob_of :: "'b probabilistic_state \<Rightarrow> 'b \<Rightarrow> 'b \<Rightarrow> double" where
  "prob_of st s t = fst (probabilistic_get_prob st s t)"

definition alias_prob_of :: "'b alias_state \<Rightarrow> 'b \<Rightarrow> 'b \<Rightarrow> double" where
  "alias_prob_of st s t = fst (alias_get_prob st s t)"

definition p_initial ::
  "fp_arith \<Rightarrow> ('b \<Rightarrow> 'b \<Rightarrow> double) \<Rightarrow> 'b blockdeg \<Rightarrow> graph \<Rightarrow> edge_t list \<Rightarrow> nat \<Rightarrow> edge_ref \<Rightarrow>
   double" where
  "p_initial fp p bd g edges ei ep =
     fp_mul fp (p (bd (source (edges ! ei) g) g) (bd (target (edges ! ei) g) g))
               (p (bd (source_ep ep edges g) g) (bd (target_ep ep edges g) g))"

definition p_final ::
  "fp_arith \<Rightarrow> ('b \<Rightarrow> 'b \<Rightarrow> double) \<Rightarrow> 'b blockdeg \<Rightarrow> graph \<Rightarrow> edge_t list \<Rightarrow> nat \<Rightarrow> edge_ref \<Rightarrow>
   double" where
  "p_final fp p bd g edges ei ep =
     fp_mul fp (p (bd (source (edges ! ei) g) g) (bd (target_ep ep edges g) g))
               (p (bd (source_ep ep edges g) g) (bd (target (edges ! ei) g) g))"

text \<open>
  The candidate of \<^verbatim>\<open>ProbabilisticRewireStrategy::get_target_edge\<close>: a uniformly drawn
  slot, flipped by a fair coin in an undirected graph; with it, the random source after
  the draws.
\<close>

definition probabilistic_candidate :: "'a base_state_scheme \<Rightarrow> edge_ref \<times> rng_t" where
  "probabilistic_candidate st =
     (case uniform_int 0 (length (s_edges st) - 1) (s_rng st) of (epi, r1) \<Rightarrow>
        (case (if \<not> directed (s_g st) then bernoulli 1 2 r1 else (False, r1)) of (c, r2) \<Rightarrow>
           ((epi, c), r2)))"

lemma prob_of_value:
  "prob_of st s t =
     (if p_probs st = [] then sanitize_prob (p_corr_prob st s t)
      else (case map_of (p_probs st) (s, t) of Some p \<Rightarrow> p | None \<Rightarrow> Fin 0))"
  "alias_prob_of ast s t = (case map_of (a_probs ast) (s, t) of Some p \<Rightarrow> p | None \<Rightarrow> Fin 0)"
  by (simp_all add: prob_of_def alias_prob_of_def probabilistic_get_prob_def alias_get_prob_def
        probs_lookup_def split: option.splits)

lemma probs_lookup_stable:
  assumes "probs_lookup al k = (p, al')"
  shows "fst (probs_lookup al' k') = fst (probs_lookup al k') \<and> (al \<noteq> [] \<longrightarrow> al' \<noteq> [])"
proof (cases "map_of al k")
  case None
  then have al': "al' = AList.update k (Fin 0) al" using assms by (auto simp: probs_lookup_def)
  have ne: "al' \<noteq> []" unfolding al' by (cases al) auto
  have "fst (probs_lookup al' k') = fst (probs_lookup al k')"
    unfolding al' probs_lookup_def using None
    by (cases "k' = k") (auto simp: update_conv' split: option.splits)
  then show ?thesis using ne by simp
next
  case (Some q)
  then have "al' = al" using assms by (simp add: probs_lookup_def)
  then show ?thesis by simp
qed

lemma probabilistic_get_prob_stable:
  assumes "probabilistic_get_prob st a b = (p, st1)"
  shows "p = prob_of st a b \<and> prob_of st1 = prob_of st \<and> s_g st1 = s_g st \<and>
         s_edges st1 = s_edges st \<and> s_rng st1 = s_rng st \<and> p_blockdeg st1 = p_blockdeg st"
proof -
  have p: "p = prob_of st a b" using assms by (simp add: prob_of_def)
  have fr: "s_g st1 = s_g st \<and> s_edges st1 = s_edges st \<and> s_rng st1 = s_rng st \<and>
            p_blockdeg st1 = p_blockdeg st"
    using probabilistic_get_prob_frame[OF assms] by blast
  have "prob_of st1 c d = prob_of st c d" for c d
  proof (cases "p_probs st = []")
    case True
    then have "st1 = st" using assms by (simp add: probabilistic_get_prob_def)
    then show ?thesis by simp
  next
    case False
    obtain q al where l: "probs_lookup (p_probs st) (a, b) = (q, al)"
      by (cases "probs_lookup (p_probs st) (a, b)")
    have st1: "st1 = st\<lparr>p_probs := al\<rparr>"
      using assms False l by (simp add: probabilistic_get_prob_def)
    from probs_lookup_stable[OF l, of "(c, d)"] False
    have "fst (probs_lookup al (c, d)) = fst (probs_lookup (p_probs st) (c, d))" "al \<noteq> []"
      by simp_all
    then show ?thesis using False
      unfolding prob_of_def probabilistic_get_prob_def st1
      by (simp add: case_prod_beta)
  qed
  then have "prob_of st1 = prob_of st" by (intro ext)
  then show ?thesis using p fr by simp
qed

lemma alias_get_prob_stable:
  assumes "alias_get_prob st a b = (p, st1)"
  shows "p = alias_prob_of st a b \<and> alias_prob_of st1 = alias_prob_of st"
proof -
  have p: "p = alias_prob_of st a b" using assms by (simp add: alias_prob_of_def)
  obtain q al where l: "probs_lookup (a_probs st) (a, b) = (q, al)"
    by (cases "probs_lookup (a_probs st) (a, b)")
  have st1: "st1 = st\<lparr>a_probs := al\<rparr>"
    using assms l by (simp add: alias_get_prob_def)
  have "alias_prob_of st1 c d = alias_prob_of st c d" for c d
    using probs_lookup_stable[OF l, of "(c, d)"]
    unfolding alias_prob_of_def alias_get_prob_def st1
    by (simp add: case_prod_beta)
  then have "alias_prob_of st1 = alias_prob_of st" by (intro ext)
  then show ?thesis using p by simp
qed

lemma probabilistic_gte_accept_step:
  assumes ei: "ei < length (s_edges st)" and c: "probabilistic_candidate st = (ep, r2)"
  shows "\<exists>st'. probabilistic_get_target_edge fp st ei =
           Some (fst (accept_step fp ei ep
                   (p_initial fp (prob_of st) (p_blockdeg st) (s_g st) (s_edges st) ei ep)
                   (p_final fp (prob_of st) (p_blockdeg st) (s_g st) (s_edges st) ei ep) r2), st')"
proof -
  let ?g = "s_g st" and ?e = "s_edges st" and ?bd = "p_blockdeg st"
  let ?bs = "?bd (source (?e ! ei) ?g) ?g" and ?bt = "?bd (target (?e ! ei) ?g) ?g"
  let ?bs' = "?bd (source_ep ep ?e ?g) ?g" and ?bt' = "?bd (target_ep ep ?e ?g) ?g"
  obtain epi r1 where u: "uniform_int 0 (length ?e - 1) (s_rng st) = (epi, r1)"
    by (cases "uniform_int 0 (length ?e - 1) (s_rng st)")
  obtain cc r2' where b: "(if \<not> directed ?g then bernoulli 1 2 r1 else (False, r1)) = (cc, r2')"
    by (cases "if \<not> directed ?g then bernoulli 1 2 r1 else (False, r1)")
  have ep: "ep = (epi, cc)" and r2: "r2 = r2'"
    using c u b unfolding probabilistic_candidate_def by simp_all
  obtain p1 st1 where g1: "probabilistic_get_prob st ?bs ?bt = (p1, st1)"
    by (cases "probabilistic_get_prob st ?bs ?bt")
  obtain p2 st2 where g2: "probabilistic_get_prob st1 ?bs' ?bt' = (p2, st2)"
    by (cases "probabilistic_get_prob st1 ?bs' ?bt'")
  obtain p3 st3 where g3: "probabilistic_get_prob st2 ?bs ?bt' = (p3, st3)"
    by (cases "probabilistic_get_prob st2 ?bs ?bt'")
  obtain p4 st4 where g4: "probabilistic_get_prob st3 ?bs' ?bt = (p4, st4)"
    by (cases "probabilistic_get_prob st3 ?bs' ?bt")
  note s1 = probabilistic_get_prob_stable[OF g1]
  note s2 = probabilistic_get_prob_stable[OF g2]
  note s3 = probabilistic_get_prob_stable[OF g3]
  note s4 = probabilistic_get_prob_stable[OF g4]
  have v: "p1 = prob_of st ?bs ?bt" "p2 = prob_of st ?bs' ?bt'"
    "p3 = prob_of st ?bs ?bt'" "p4 = prob_of st ?bs' ?bt"
    using s1 s2 s3 s4 by simp_all
  obtain res r3 where a: "accept_step fp ei ep (fp_mul fp p1 p2) (fp_mul fp p3 p4) r2 = (res, r3)"
    by (cases "accept_step fp ei ep (fp_mul fp p1 p2) (fp_mul fp p3 p4) r2")
  have "probabilistic_get_target_edge fp st ei = Some (res, st4\<lparr>s_rng := r3\<rparr>)"
    unfolding probabilistic_get_target_edge_def Let_def
    using ei u b g1 g2 g3 g4 a unfolding ep r2 by (simp split: prod.splits)
  moreover have "res = fst (accept_step fp ei ep
                   (p_initial fp (prob_of st) ?bd ?g ?e ei ep)
                   (p_final fp (prob_of st) ?bd ?g ?e ei ep) r2)"
    using a unfolding p_initial_def p_final_def v by simp
  ultimately show ?thesis by blast
qed

lemma alias_gte_accept_step:
  assumes ei: "ei < length (s_edges st)"
    and sm: "a_sampler st (a_blockdeg st (source (s_edges st ! ei) (s_g st)) (s_g st)) = Some smp"
    and nt: "sample smp (s_rng st) = Some (nt, r1)"
    and c: "alias_candidate st nt r1 = Some (ep, r2)"
    and ep: "fst ep < length (s_edges st)"
  shows "\<exists>st'. alias_get_target_edge fp st ei =
           Some (fst (accept_step fp ei ep
                   (p_initial fp (alias_prob_of st) (a_blockdeg st) (s_g st) (s_edges st) ei ep)
                   (p_final fp (alias_prob_of st) (a_blockdeg st) (s_g st) (s_edges st) ei ep) r2), st')"
proof -
  let ?g = "s_g st" and ?e = "s_edges st" and ?bd = "a_blockdeg st"
  let ?bs = "?bd (source (?e ! ei) ?g) ?g" and ?bt = "?bd (target (?e ! ei) ?g) ?g"
  let ?bs' = "?bd (source_ep ep ?e ?g) ?g" and ?bt' = "?bd (target_ep ep ?e ?g) ?g"
  obtain p1 st1 where g1: "alias_get_prob st ?bs ?bt = (p1, st1)"
    by (cases "alias_get_prob st ?bs ?bt")
  obtain p2 st2 where g2: "alias_get_prob st1 ?bs' ?bt' = (p2, st2)"
    by (cases "alias_get_prob st1 ?bs' ?bt'")
  obtain p3 st3 where g3: "alias_get_prob st2 ?bs ?bt' = (p3, st3)"
    by (cases "alias_get_prob st2 ?bs ?bt'")
  obtain p4 st4 where g4: "alias_get_prob st3 ?bs' ?bt = (p4, st4)"
    by (cases "alias_get_prob st3 ?bs' ?bt")
  note s1 = alias_get_prob_stable[OF g1]
  note s2 = alias_get_prob_stable[OF g2]
  note s3 = alias_get_prob_stable[OF g3]
  note s4 = alias_get_prob_stable[OF g4]
  have v: "p1 = alias_prob_of st ?bs ?bt" "p2 = alias_prob_of st ?bs' ?bt'"
    "p3 = alias_prob_of st ?bs ?bt'" "p4 = alias_prob_of st ?bs' ?bt"
    using s1 s2 s3 s4 by simp_all
  obtain res r3 where a: "accept_step fp ei ep (fp_mul fp p1 p2) (fp_mul fp p3 p4) r2 = (res, r3)"
    by (cases "accept_step fp ei ep (fp_mul fp p1 p2) (fp_mul fp p3 p4) r2")
  have "alias_get_target_edge fp st ei = Some (res, st4\<lparr>s_rng := r3\<rparr>)"
    unfolding alias_get_target_edge_def Let_def
    using ei sm nt c ep g1 g2 g3 g4 a by (simp split: prod.splits)
  moreover have "res = fst (accept_step fp ei ep
                   (p_initial fp (alias_prob_of st) ?bd ?g ?e ei ep)
                   (p_final fp (alias_prob_of st) ?bd ?g ?e ei ep) r2)"
    using a unfolding p_initial_def p_final_def v by simp
  ultimately show ?thesis by blast
qed

text \<open>
  Claim C3. In \<^verbatim>\<open>get_target_edge\<close> of the Probabilistic strategy, for every slot \<open>ei\<close> of the
  table and the candidate \<open>ep\<close> it draws, and in \<^verbatim>\<open>get_target_edge\<close> of the Alias strategy
  whenever its sampler and buckets yield a candidate \<open>ep\<close>, with \<open>pi\<close> and \<open>pf\<close> the
  products above: the function returns; if \<^verbatim>\<open>pf >= pi\<close> it returns the candidate;
  otherwise if \<^verbatim>\<open>pf == 0\<close> it returns the self-pair \<open>(ei, false)\<close>; otherwise it returns the
  candidate unless the draw \<open>r\<close> of \<^verbatim>\<open>uniform_real(0, 1)\<close> exceeds
  \<open>a =\<close> \<^verbatim>\<open>exp(log(pf) - log(pi))\<close>, the double for \<open>pf / pi\<close>, and the self-pair if it
  does: the candidate for the draws in \<open>[0, a]\<close>, the self-pair for those in \<open>(a, 1)\<close>.
  This holds for every arithmetic of doubles and every random source.
\<close>

theorem acceptance_rule:
  "(ei < length (s_edges pst) \<and> probabilistic_candidate pst = (ep, r2) \<and>
    p_i = p_initial fp (prob_of pst) (p_blockdeg pst) (s_g pst) (s_edges pst) ei ep \<and>
    p_f = p_final fp (prob_of pst) (p_blockdeg pst) (s_g pst) (s_edges pst) ei ep \<and>
    a = fp_exp_log_diff fp p_f p_i \<and> r = fp_uniform_real fp (fst (rng_next r2))
    \<longrightarrow> (\<exists>res st'. probabilistic_get_target_edge fp pst ei = Some (res, st') \<and>
           (d_ge p_f p_i \<longrightarrow> res = ep) \<and>
           (\<not> d_ge p_f p_i \<and> d_eq p_f (Fin 0) \<longrightarrow> res = (ei, False)) \<and>
           (\<not> d_ge p_f p_i \<and> \<not> d_eq p_f (Fin 0) \<and> \<not> d_less a r \<longrightarrow> res = ep) \<and>
           (\<not> d_ge p_f p_i \<and> \<not> d_eq p_f (Fin 0) \<and> d_less a r \<longrightarrow> res = (ei, False)))) \<and>
   (ei < length (s_edges ast) \<and>
    a_sampler ast (a_blockdeg ast (source (s_edges ast ! ei) (s_g ast)) (s_g ast)) = Some smp \<and>
    sample smp (s_rng ast) = Some (nt, r1) \<and>
    alias_candidate ast nt r1 = Some (ep, r2) \<and> fst ep < length (s_edges ast) \<and>
    p_i = p_initial fp (alias_prob_of ast) (a_blockdeg ast) (s_g ast) (s_edges ast) ei ep \<and>
    p_f = p_final fp (alias_prob_of ast) (a_blockdeg ast) (s_g ast) (s_edges ast) ei ep \<and>
    a = fp_exp_log_diff fp p_f p_i \<and> r = fp_uniform_real fp (fst (rng_next r2))
    \<longrightarrow> (\<exists>res st'. alias_get_target_edge fp ast ei = Some (res, st') \<and>
           (d_ge p_f p_i \<longrightarrow> res = ep) \<and>
           (\<not> d_ge p_f p_i \<and> d_eq p_f (Fin 0) \<longrightarrow> res = (ei, False)) \<and>
           (\<not> d_ge p_f p_i \<and> \<not> d_eq p_f (Fin 0) \<and> \<not> d_less a r \<longrightarrow> res = ep) \<and>
           (\<not> d_ge p_f p_i \<and> \<not> d_eq p_f (Fin 0) \<and> d_less a r \<longrightarrow> res = (ei, False))))"
proof (intro conjI impI)
  assume h: "ei < length (s_edges pst) \<and> probabilistic_candidate pst = (ep, r2) \<and>
    p_i = p_initial fp (prob_of pst) (p_blockdeg pst) (s_g pst) (s_edges pst) ei ep \<and>
    p_f = p_final fp (prob_of pst) (p_blockdeg pst) (s_g pst) (s_edges pst) ei ep \<and>
    a = fp_exp_log_diff fp p_f p_i \<and> r = fp_uniform_real fp (fst (rng_next r2))"
  then have ei: "ei < length (s_edges pst)" and c: "probabilistic_candidate pst = (ep, r2)"
    by blast+
  from probabilistic_gte_accept_step[OF ei c, of fp] h obtain st' where
    g: "probabilistic_get_target_edge fp pst ei = Some (fst (accept_step fp ei ep p_i p_f r2), st')"
    by auto
  have b: "fst (accept_step fp ei ep p_i p_f r2) =
     (if d_ge p_f p_i then ep
      else if d_eq p_f (Fin 0) then (ei, False)
      else if d_less a r then (ei, False) else ep)"
    using h by (simp add: accept_step_branches)
  show "\<exists>res st'. probabilistic_get_target_edge fp pst ei = Some (res, st') \<and>
           (d_ge p_f p_i \<longrightarrow> res = ep) \<and>
           (\<not> d_ge p_f p_i \<and> d_eq p_f (Fin 0) \<longrightarrow> res = (ei, False)) \<and>
           (\<not> d_ge p_f p_i \<and> \<not> d_eq p_f (Fin 0) \<and> \<not> d_less a r \<longrightarrow> res = ep) \<and>
           (\<not> d_ge p_f p_i \<and> \<not> d_eq p_f (Fin 0) \<and> d_less a r \<longrightarrow> res = (ei, False))"
    using g unfolding b by simp
next
  assume h: "ei < length (s_edges ast) \<and>
    a_sampler ast (a_blockdeg ast (source (s_edges ast ! ei) (s_g ast)) (s_g ast)) = Some smp \<and>
    sample smp (s_rng ast) = Some (nt, r1) \<and>
    alias_candidate ast nt r1 = Some (ep, r2) \<and> fst ep < length (s_edges ast) \<and>
    p_i = p_initial fp (alias_prob_of ast) (a_blockdeg ast) (s_g ast) (s_edges ast) ei ep \<and>
    p_f = p_final fp (alias_prob_of ast) (a_blockdeg ast) (s_g ast) (s_edges ast) ei ep \<and>
    a = fp_exp_log_diff fp p_f p_i \<and> r = fp_uniform_real fp (fst (rng_next r2))"
  then have ei: "ei < length (s_edges ast)"
    and sm: "a_sampler ast (a_blockdeg ast (source (s_edges ast ! ei) (s_g ast)) (s_g ast)) = Some smp"
    and nt: "sample smp (s_rng ast) = Some (nt, r1)"
    and c: "alias_candidate ast nt r1 = Some (ep, r2)" and ep: "fst ep < length (s_edges ast)"
    by blast+
  from alias_gte_accept_step[OF ei sm nt c ep, of fp] h obtain st' where
    g: "alias_get_target_edge fp ast ei = Some (fst (accept_step fp ei ep p_i p_f r2), st')"
    by auto
  have b: "fst (accept_step fp ei ep p_i p_f r2) =
     (if d_ge p_f p_i then ep
      else if d_eq p_f (Fin 0) then (ei, False)
      else if d_less a r then (ei, False) else ep)"
    using h by (simp add: accept_step_branches)
  show "\<exists>res st'. alias_get_target_edge fp ast ei = Some (res, st') \<and>
           (d_ge p_f p_i \<longrightarrow> res = ep) \<and>
           (\<not> d_ge p_f p_i \<and> d_eq p_f (Fin 0) \<longrightarrow> res = (ei, False)) \<and>
           (\<not> d_ge p_f p_i \<and> \<not> d_eq p_f (Fin 0) \<and> \<not> d_less a r \<longrightarrow> res = ep) \<and>
           (\<not> d_ge p_f p_i \<and> \<not> d_eq p_f (Fin 0) \<and> d_less a r \<longrightarrow> res = (ei, False))"
    using g unfolding b by simp
qed

definition ex_pref :: "nat \<Rightarrow> nat \<Rightarrow> double" where
  "ex_pref s t = (if t = s + 1 then Fin 1 else Fin (1 / 2))"

lemma ex_pref_candidate:
  "probabilistic_candidate
     (ProbabilisticRewireStrategy ex_g2 (edge_list ex_g2) ex_pref vertex_block False
        (list_rng [0, x])) = ((0, False), list_rng [x])"
  by (simp add: probabilistic_candidate_def ProbabilisticRewireStrategy_def ex_g2_def
        uniform_int_def)

lemma ex_pref_products:
  "p_initial fp_exact
     (prob_of (ProbabilisticRewireStrategy ex_g2 (edge_list ex_g2) ex_pref vertex_block False rng))
     vertex_block ex_g2 (edge_list ex_g2) 1 (0, False) = Fin 1"
  "p_final fp_exact
     (prob_of (ProbabilisticRewireStrategy ex_g2 (edge_list ex_g2) ex_pref vertex_block False rng))
     vertex_block ex_g2 (edge_list ex_g2) 1 (0, False) = Fin (1 / 4)"
  by (simp_all add: p_initial_def p_final_def prob_of_def probabilistic_get_prob_def
        ProbabilisticRewireStrategy_def ex_g2_def ex_pref_def vertex_block_def
        numeric_limits_min_def eval_defs)

text \<open>
  An arithmetic in which a product too small for a double underflows to zero, as the
  product of two least normal doubles does.
\<close>

fun d_mul_underflow :: "double \<Rightarrow> double \<Rightarrow> double" where
  "d_mul_underflow (Fin x) (Fin y) = (if \<bar>x * y\<bar> < 1 / 2 ^ 1075 then Fin 0 else Fin (x * y))"
| "d_mul_underflow _ _ = NaN"

definition fp_underflow :: fp_arith where
  "fp_underflow = fp_exact\<lparr>fp_mul := d_mul_underflow\<rparr>"

definition ex_zero :: "nat \<Rightarrow> nat \<Rightarrow> double" where
  "ex_zero s t = (if t = s + 1 then Fin 1 else Fin 0)"

lemma ex_zero_candidate:
  "probabilistic_candidate
     (ProbabilisticRewireStrategy ex_g2 (edge_list ex_g2) ex_zero vertex_block False
        (list_rng [0])) = ((0, False), list_rng [])"
  by (simp add: probabilistic_candidate_def ProbabilisticRewireStrategy_def ex_g2_def
        uniform_int_def)

lemma min_product_underflows: "d_mul_underflow numeric_limits_min numeric_limits_min = Fin 0"
proof -
  have "(1 / 2 ^ 1022) * (1 / 2 ^ 1022) = (1 :: real) / 2 ^ 2044"
    by (simp add: power_add[symmetric])
  moreover have "(1 :: real) / 2 ^ 2044 < 1 / 2 ^ 1075"
    by (intro divide_strict_left_mono power_strict_increasing) simp_all
  ultimately show ?thesis by (simp add: numeric_limits_min_def)
qed

lemma ex_zero_products:
  "p_initial fp_underflow
     (prob_of (ProbabilisticRewireStrategy ex_g2 (edge_list ex_g2) ex_zero vertex_block False rng))
     vertex_block ex_g2 (edge_list ex_g2) 1 (0, False) = Fin 1"
  "p_final fp_underflow
     (prob_of (ProbabilisticRewireStrategy ex_g2 (edge_list ex_g2) ex_zero vertex_block False rng))
     vertex_block ex_g2 (edge_list ex_g2) 1 (0, False) = Fin 0"
proof -
  let ?p = "prob_of (ProbabilisticRewireStrategy ex_g2 (edge_list ex_g2) ex_zero vertex_block False rng)"
  have v: "?p 2 3 = Fin 1" "?p 0 1 = Fin 1" "?p 2 1 = numeric_limits_min"
    "?p 0 3 = numeric_limits_min"
    by (simp_all add: prob_of_def probabilistic_get_prob_def ProbabilisticRewireStrategy_def
          ex_zero_def sanitize_prob_def isnan_def isinf_def Let_def)
  have b: "vertex_block (source (edge_list ex_g2 ! 1) ex_g2) ex_g2 = 2"
    "vertex_block (target (edge_list ex_g2 ! 1) ex_g2) ex_g2 = 3"
    "vertex_block (source_ep (0, False) (edge_list ex_g2) ex_g2) ex_g2 = 0"
    "vertex_block (target_ep (0, False) (edge_list ex_g2) ex_g2) ex_g2 = 1"
    by (simp_all add: vertex_block_def ex_g2_def eval_defs)
  show "p_initial fp_underflow ?p vertex_block ex_g2 (edge_list ex_g2) 1 (0, False) = Fin 1"
    unfolding p_initial_def b v by (simp add: fp_underflow_def fp_exact_def)
  show "p_final fp_underflow ?p vertex_block ex_g2 (edge_list ex_g2) 1 (0, False) = Fin 0"
    unfolding p_final_def b v by (simp add: fp_underflow_def fp_exact_def min_product_underflows)
qed

lemma ex_alias_candidate:
  "a_sampler (AliasProbabilisticRewireStrategy ex_g2 (edge_list ex_g2) corr_one DegreeBlock False
         (list_rng [0, 1]))
     (DegreeBlock (source (edge_list ex_g2 ! 0) ex_g2) ex_g2)
     = Some (Sampler [(1, 0), (0, 1)] [Fin 1, Fin 1])"
  "sample (Sampler [(1, 0), (0, 1)] [Fin 1, Fin 1]) (list_rng [0, 1])
     = Some ((1 :: nat, 0 :: nat), list_rng [1])"
  "alias_candidate (AliasProbabilisticRewireStrategy ex_g2 (edge_list ex_g2) corr_one DegreeBlock
         False (list_rng [0, 1])) (1, 0) (list_rng [1]) = Some ((1, False), list_rng [])"
  by (simp_all add: AliasProbabilisticRewireStrategy_def ex_g2_def alias_candidate_def
        alias_push_def alias_samplers_def eval_defs)

lemma ex_alias_products:
  "p_initial fp_exact
     (alias_prob_of (AliasProbabilisticRewireStrategy ex_g2 (edge_list ex_g2) corr_one DegreeBlock
         False rng))
     DegreeBlock ex_g2 (edge_list ex_g2) 0 (1, False) = Fin 1"
  "p_final fp_exact
     (alias_prob_of (AliasProbabilisticRewireStrategy ex_g2 (edge_list ex_g2) corr_one DegreeBlock
         False rng))
     DegreeBlock ex_g2 (edge_list ex_g2) 0 (1, False) = Fin 1"
  by (simp_all add: p_initial_def p_final_def alias_prob_of_def alias_get_prob_def
        AliasProbabilisticRewireStrategy_def ex_g2_def alias_push_def alias_samplers_def eval_defs)

lemma ex_alias_frame:
  "s_g (AliasProbabilisticRewireStrategy ex_g2 (edge_list ex_g2) corr_one DegreeBlock False rng)
     = ex_g2"
  "s_edges (AliasProbabilisticRewireStrategy ex_g2 (edge_list ex_g2) corr_one DegreeBlock False rng)
     = edge_list ex_g2"
  "s_rng (AliasProbabilisticRewireStrategy ex_g2 (edge_list ex_g2) corr_one DegreeBlock False rng)
     = rng"
  "a_blockdeg (AliasProbabilisticRewireStrategy ex_g2 (edge_list ex_g2) corr_one DegreeBlock False
     rng) = DegreeBlock"
  by (simp_all add: AliasProbabilisticRewireStrategy_def ex_g2_def alias_push_frame Let_def upt_rec)

lemma ex_probabilistic_frame:
  "s_g (ProbabilisticRewireStrategy g edges corr_prob bd cache rng) = g"
  "s_edges (ProbabilisticRewireStrategy g edges corr_prob bd cache rng) = edges"
  "p_blockdeg (ProbabilisticRewireStrategy g edges corr_prob bd cache rng) = bd"
  by (simp_all add: ProbabilisticRewireStrategy_def)

theorem acceptance_rule_witness:
  "(\<exists>st'. probabilistic_get_target_edge fp_exact
      (ProbabilisticRewireStrategy ex_g2 (edge_list ex_g2) corr_one vertex_block False
         (list_rng [0])) 1 = Some ((0, False), st')) \<and>
   (\<exists>st'. probabilistic_get_target_edge fp_underflow
      (ProbabilisticRewireStrategy ex_g2 (edge_list ex_g2) ex_zero vertex_block False
         (list_rng [0])) 1 = Some ((1, False), st')) \<and>
   (\<exists>st'. probabilistic_get_target_edge fp_exact
      (ProbabilisticRewireStrategy ex_g2 (edge_list ex_g2) ex_pref vertex_block False
         (list_rng [0, 100])) 1 = Some ((0, False), st')) \<and>
   (\<exists>st'. probabilistic_get_target_edge fp_exact
      (ProbabilisticRewireStrategy ex_g2 (edge_list ex_g2) ex_pref vertex_block False
         (list_rng [0, 500])) 1 = Some ((1, False), st')) \<and>
   (\<exists>st'. alias_get_target_edge fp_exact
      (AliasProbabilisticRewireStrategy ex_g2 (edge_list ex_g2) corr_one DegreeBlock False
         (list_rng [0, 1])) 0 = Some ((1, False), st'))"
proof -
  let ?P = "\<lambda>c r. ProbabilisticRewireStrategy ex_g2 (edge_list ex_g2) c vertex_block False r"
  let ?A = "AliasProbabilisticRewireStrategy ex_g2 (edge_list ex_g2)
              (corr_one :: nat \<times> nat \<Rightarrow> nat \<times> nat \<Rightarrow> double) DegreeBlock False (list_rng [0, 1])"
  have l: "1 < length (edge_list ex_g2)" "0 < length (edge_list ex_g2)" by (simp_all add: ex_g2_def)
  have c1: "probabilistic_candidate (?P corr_one (list_rng [0])) = ((0, False), list_rng [])"
    by (simp add: probabilistic_candidate_def ProbabilisticRewireStrategy_def ex_g2_def
          uniform_int_def)
  have p1: "p_initial fp_exact (prob_of (?P corr_one (list_rng [0]))) vertex_block ex_g2
              (edge_list ex_g2) 1 (0, False) = Fin 1"
    "p_final fp_exact (prob_of (?P corr_one (list_rng [0]))) vertex_block ex_g2
              (edge_list ex_g2) 1 (0, False) = Fin 1"
    by (simp_all add: p_initial_def p_final_def prob_of_def probabilistic_get_prob_def
          ProbabilisticRewireStrategy_def eval_defs)
  have u: "fp_uniform_real fp_exact 0 = Fin 0" "fp_uniform_real fp_underflow 0 = Fin 0"
    "fp_uniform_real fp_exact 100 = Fin (1 / 10)" "fp_uniform_real fp_exact 500 = Fin (1 / 2)"
    "fp_exp_log_diff fp_exact (Fin 1) (Fin 1) = Fin 1"
    "fp_exp_log_diff fp_underflow (Fin 0) (Fin 1) = Fin 0"
    "fp_exp_log_diff fp_exact (Fin (1 / 4)) (Fin 1) = Fin (1 / 4)"
    by (simp_all add: fp_exact_def fp_underflow_def)
  have w1: "\<exists>st'. probabilistic_get_target_edge fp_exact (?P corr_one (list_rng [0])) 1
              = Some ((0, False), st')"
  proof -
    note i = acceptance_rule[where fp=fp_exact and pst="?P corr_one (list_rng [0])"
        and ei=1 and ep="(0, False)" and ?r2.0="list_rng []" and p_i="Fin 1" and p_f="Fin 1"
        and a="Fin 1" and r="Fin 0", THEN conjunct1, unfolded ex_probabilistic_frame]
    have "\<exists>res st'. probabilistic_get_target_edge fp_exact (?P corr_one (list_rng [0])) 1
              = Some (res, st') \<and> (d_ge (Fin 1) (Fin 1) \<longrightarrow> res = (0, False))"
      using i c1 p1 l u by (auto simp: d_ge_def)
    then show ?thesis by (auto simp: d_ge_def)
  qed
  have w2: "\<exists>st'. probabilistic_get_target_edge fp_underflow (?P ex_zero (list_rng [0])) 1
              = Some ((1, False), st')"
  proof -
    note i = acceptance_rule[where fp=fp_underflow and pst="?P ex_zero (list_rng [0])"
        and ei=1 and ep="(0, False)" and ?r2.0="list_rng []" and p_i="Fin 1" and p_f="Fin 0"
        and a="Fin 0" and r="Fin 0", THEN conjunct1, unfolded ex_probabilistic_frame]
    have "\<exists>res st'. probabilistic_get_target_edge fp_underflow (?P ex_zero (list_rng [0])) 1
              = Some (res, st') \<and>
              (\<not> d_ge (Fin 0) (Fin 1) \<and> d_eq (Fin 0) (Fin 0) \<longrightarrow> res = (1, False))"
      using i ex_zero_candidate ex_zero_products l u by (auto simp: d_ge_def)
    then show ?thesis by (auto simp: d_ge_def)
  qed
  have w3: "\<exists>st'. probabilistic_get_target_edge fp_exact (?P ex_pref (list_rng [0, 100])) 1
              = Some ((0, False), st')"
  proof -
    note i = acceptance_rule[where fp=fp_exact and pst="?P ex_pref (list_rng [0, 100])"
        and ei=1 and ep="(0, False)" and ?r2.0="list_rng [100]" and p_i="Fin 1"
        and p_f="Fin (1 / 4)" and a="Fin (1 / 4)" and r="Fin (1 / 10)", THEN conjunct1,
        unfolded ex_probabilistic_frame]
    have "\<exists>res st'. probabilistic_get_target_edge fp_exact (?P ex_pref (list_rng [0, 100])) 1
              = Some (res, st') \<and>
              (\<not> d_ge (Fin (1 / 4)) (Fin 1) \<and> \<not> d_eq (Fin (1 / 4)) (Fin 0) \<and>
               \<not> d_less (Fin (1 / 4)) (Fin (1 / 10)) \<longrightarrow> res = (0, False))"
      using i ex_pref_candidate[of 100] ex_pref_products l u by (auto simp: d_ge_def)
    then show ?thesis by (auto simp: d_ge_def)
  qed
  have w4: "\<exists>st'. probabilistic_get_target_edge fp_exact (?P ex_pref (list_rng [0, 500])) 1
              = Some ((1, False), st')"
  proof -
    note i = acceptance_rule[where fp=fp_exact and pst="?P ex_pref (list_rng [0, 500])"
        and ei=1 and ep="(0, False)" and ?r2.0="list_rng [500]" and p_i="Fin 1"
        and p_f="Fin (1 / 4)" and a="Fin (1 / 4)" and r="Fin (1 / 2)", THEN conjunct1,
        unfolded ex_probabilistic_frame]
    have "\<exists>res st'. probabilistic_get_target_edge fp_exact (?P ex_pref (list_rng [0, 500])) 1
              = Some (res, st') \<and>
              (\<not> d_ge (Fin (1 / 4)) (Fin 1) \<and> \<not> d_eq (Fin (1 / 4)) (Fin 0) \<and>
               d_less (Fin (1 / 4)) (Fin (1 / 2)) \<longrightarrow> res = (1, False))"
      using i ex_pref_candidate[of 500] ex_pref_products l u by (auto simp: d_ge_def)
    then show ?thesis by (auto simp: d_ge_def)
  qed
  have w5: "\<exists>st'. alias_get_target_edge fp_exact ?A 0 = Some ((1, False), st')"
  proof -
    note i = acceptance_rule[where fp=fp_exact and ast="?A"
        and ei=0 and ep="(1, False)" and ?r2.0="list_rng []" and p_i="Fin 1" and p_f="Fin 1"
        and a="Fin 1" and r="Fin 0" and smp="Sampler [(1, 0), (0, 1)] [Fin 1, Fin 1]"
        and nt="(1, 0)" and ?r1.0="list_rng [1]", THEN conjunct2, unfolded ex_alias_frame]
    have "\<exists>res st'. alias_get_target_edge fp_exact ?A 0 = Some (res, st') \<and>
              (d_ge (Fin 1) (Fin 1) \<longrightarrow> res = (1, False))"
      using i ex_alias_candidate ex_alias_products l u by (auto simp: d_ge_def)
    then show ?thesis by (auto simp: d_ge_def)
  qed
  show ?thesis using w1 w2 w3 w4 w5 by blast
qed

end
